theory Spec2Isabelle
  imports Main "HOL-Library.Multiset"
begin

section \<open>Strings of the platform\<close>

text \<open>
  A string is a list of code units; \<open>char\<close> has eight bits, so the strings of the model are
  those whose code units are below 0x100 (paths of URLs, dates and digits are ASCII). The
  operations below are the library functions the two scripts call on strings:
  \<^verbatim>\<open>String.prototype.split\<close> with a string separator, \<^verbatim>\<open>String.prototype.trim\<close>,
  \<^verbatim>\<open>substring(1)\<close> (which is \<open>drop 1\<close>) and \<^verbatim>\<open>replace(/.git$/, '')\<close>.
\<close>

definition LF :: char where
  "LF = CHR 0x0A"

definition CR :: char where
  "CR = CHR 0x0D"

text \<open>
  \<^verbatim>\<open>s.split(sep)\<close>: the segments of \<open>s\<close> between the occurrences of \<open>sep\<close>, found from
  left to right, each search starting after the previous occurrence. \<open>cur\<close> is the segment
  read so far.
\<close>

function split_from :: "string \<Rightarrow> string \<Rightarrow> string \<Rightarrow> string list" where
  "split_from sep cur [] = [cur]"
| "split_from sep cur (c # cs) =
     (if sep \<noteq> [] \<and> take (length sep) (c # cs) = sep
      then cur # split_from sep [] (drop (length sep) (c # cs))
      else split_from sep (cur @ [c]) cs)"
  by pat_completeness auto
termination
  by (relation "measure (\<lambda>(sep, cur, s). length s)") auto

text \<open>
  With the empty separator the result has one segment per code unit. With any other separator
  it is never empty (lemma \<open>split_from_not_Nil\<close>), so its element 0 is \<open>hd\<close>.
\<close>

definition split_js :: "string \<Rightarrow> string \<Rightarrow> string list" where
  "split_js sep s = (if sep = [] then map (\<lambda>c. [c]) s else split_from sep [] s)"

text \<open>
  The white space and line terminator code units below 0x100: TAB, LF, VT, FF, CR, SP, NBSP.
\<close>

definition is_white_space :: "char \<Rightarrow> bool" where
  "is_white_space c \<longleftrightarrow>
     c \<in> {CHR 0x09, CHR 0x0A, CHR 0x0B, CHR 0x0C, CHR 0x0D, CHR 0x20, CHR 0xA0}"

definition trim :: "string \<Rightarrow> string" where
  "trim s = rev (dropWhile is_white_space (rev (dropWhile is_white_space s)))"

text \<open>
  \<^verbatim>\<open>s.replace(/.git$/, '')\<close>. The dot of the pattern is not escaped: it matches any
  code unit that is not a line terminator. The pattern is anchored at the end of the string,
  so its only possible match is the last four code units.
\<close>

definition replace_dot_git :: "string \<Rightarrow> string" where
  "replace_dot_git s =
     (let n = length s in
      if 4 \<le> n \<and> drop (n - 3) s = ''git'' \<and> s ! (n - 4) \<noteq> LF \<and> s ! (n - 4) \<noteq> CR
      then take (n - 4) s else s)"

text \<open>Decimal digits of a natural number, as the conversion of a number to a string writes them.\<close>

fun show_nat :: "nat \<Rightarrow> string" where
  "show_nat n =
     (if n < 10 then [''0123456789'' ! n]
      else show_nat (n div 10) @ [''0123456789'' ! (n mod 10)])"

declare show_nat.simps [simp del]

section \<open>Ingestor: cleaning an export record\<close>

text \<open>
  \<^verbatim>\<open>cleanEcosystemName(name)\<close>. The argument is \<open>None\<close> when the export record has no
  \<^verbatim>\<open>eco_name\<close>; the empty string is falsy as well.
\<close>

definition cleanEcosystemName :: "string option \<Rightarrow> string" where
  "cleanEcosystemName name =
     (case name of
        None \<Rightarrow> ''Unknown''
      | Some n \<Rightarrow> if n = [] then ''Unknown'' else trim (hd (split_js '' - '' n)))"

text \<open>
  The two fields of a parsed URL that \<^verbatim>\<open>cleanRepoUrl\<close> reads. The URL parser of the
  platform is a parameter \<open>new_URL\<close>: \<open>None\<close> stands for the exception it throws on a
  string that is not a URL.
\<close>

record url =
  hostname :: string
  pathname :: string

record repo_id =
  owner :: string
  repo :: string

definition cleanRepoUrl :: "(string \<Rightarrow> url option) \<Rightarrow> string \<Rightarrow> repo_id option" where
  "cleanRepoUrl new_URL u =
     (case new_URL u of
        None \<Rightarrow> None
      | Some parsedUrl \<Rightarrow>
          if hostname parsedUrl \<noteq> ''github.com'' then None
          else
            let pathParts = split_js ''/'' (replace_dot_git (drop 1 (pathname parsedUrl)))
            in if 2 \<le> length pathParts
               then Some \<lparr>owner = pathParts ! 0, repo = pathParts ! 1\<rparr>
               else None)"

section \<open>Ingestor: data model\<close>

record commit_record =
  sha :: string
  author :: string
  date :: "string option"
  message :: string

record repo_history =
  repository :: string
  ecosystem :: string
  commits :: "commit_record list"

text \<open>An element of \<^verbatim>\<open>repoDataList\<close>: \<^verbatim>\<open>{ owner, repo, ecosystem }\<close>.\<close>

record repo_ref = repo_id +
  ref_ecosystem :: string

text \<open>
  The content of the output file: either text that \<^verbatim>\<open>JSON.parse\<close> turns into the
  persisted collection, or text that it rejects.
\<close>

datatype file_content = Collection "repo_history list" | Unparsable

text \<open>What the console prints, one constructor per message of the source.\<close>

datatype log_event =
    Starting
  | Tokens_not_set
  | No_valid_tokens
  | Loaded_tokens nat
  | Found_existing_output
  | Resuming nat
  | Could_not_parse_output
  | Found_repositories nat
  | Fetching string
  | Could_not_fetch string
  | Processed_new nat
  | Success

section \<open>Ingestor: fetching the commits of one repository\<close>

text \<open>
  One commit of the response of the commit-listing service: \<^verbatim>\<open>commit.sha\<close>,
  \<^verbatim>\<open>commit.commit.author\<close> (which may be missing, as may its name and date) and
  \<^verbatim>\<open>commit.commit.message\<close>.
\<close>

record api_author =
  author_name :: "string option"
  author_date :: "string option"

record api_commit =
  api_sha :: string
  api_author :: "api_author option"
  api_message :: string

text \<open>
  A client of the service, seen as what \<^verbatim>\<open>octokit.repos.listCommits\<close> answers for an
  owner and a repository once its retries are over: the commits, or \<open>None\<close> when the
  request throws.
\<close>

type_synonym octokit = "string \<Rightarrow> string \<Rightarrow> api_commit list option"

definition project_commit :: "api_commit \<Rightarrow> commit_record" where
  "project_commit c =
     \<lparr>sha = api_sha c,
      author =
        (case Option.bind (api_author c) author_name of
           None \<Rightarrow> ''Unknown''
         | Some n \<Rightarrow> if n = [] then ''Unknown'' else n),
      date = Option.bind (api_author c) author_date,
      message = hd (split_js [LF] (api_message c))\<rparr>"

definition fetchCommitsForRepo ::
  "octokit \<Rightarrow> string \<Rightarrow> string \<Rightarrow> log_event list \<Rightarrow> commit_record list option \<times> log_event list"
where
  "fetchCommitsForRepo octokit ow rp con =
     (let con1 = con @ [Fetching (ow @ ''/'' @ rp)] in
      case octokit ow rp of
        Some response \<Rightarrow> (Some (map project_commit response), con1)
      | None \<Rightarrow> (None, con1 @ [Could_not_fetch (ow @ ''/'' @ rp)]))"

section \<open>Ingestor: the main loop\<close>

record ingest_state =
  allCommitsData :: "repo_history list"
  processedRepos :: "string set"
  newReposProcessed :: nat
  output_file :: "file_content option"
  console :: "log_event list"

text \<open>
  \<^verbatim>\<open>octokitInstances[i % octokitInstances.length]\<close>. With no instance at all the
  element read is \<^verbatim>\<open>undefined\<close>, the call on it throws inside the \<^verbatim>\<open>try\<close> of
  \<^verbatim>\<open>fetchCommitsForRepo\<close>, and the fetch fails; \<^verbatim>\<open>main\<close> never gets there.
\<close>

definition select_octokit :: "octokit list \<Rightarrow> nat \<Rightarrow> octokit" where
  "select_octokit octokitInstances i =
     (if octokitInstances = [] then (\<lambda>ow rp. None)
      else octokitInstances ! (i mod length octokitInstances))"

definition fullName :: "repo_ref \<Rightarrow> string" where
  "fullName r = owner r @ ''/'' @ repo r"

text \<open>The body of the \<^verbatim>\<open>for\<close> loop of \<^verbatim>\<open>main\<close>, at index \<open>i\<close>.\<close>

definition loop_body :: "octokit list \<Rightarrow> nat \<Rightarrow> repo_ref \<Rightarrow> ingest_state \<Rightarrow> ingest_state" where
  "loop_body octokitInstances i r s =
     (if fullName r \<in> processedRepos s then s
      else
        case fetchCommitsForRepo (select_octokit octokitInstances i) (owner r) (repo r) (console s) of
          (None, con) \<Rightarrow>
            s\<lparr>processedRepos := insert (fullName r) (processedRepos s), console := con\<rparr>
        | (Some cs, con) \<Rightarrow>
            let pushed = allCommitsData s @
                  [\<lparr>repository = fullName r, ecosystem = ref_ecosystem r, commits = cs\<rparr>]
            in s\<lparr>allCommitsData := pushed,
                 processedRepos := insert (fullName r) (processedRepos s),
                 newReposProcessed := Suc (newReposProcessed s),
                 output_file := Some (Collection pushed),
                 console := con\<rparr>)"

fun ingest_loop :: "octokit list \<Rightarrow> nat \<Rightarrow> repo_ref list \<Rightarrow> ingest_state \<Rightarrow> ingest_state" where
  "ingest_loop octokitInstances i [] s = s"
| "ingest_loop octokitInstances i (r # rs) s =
     ingest_loop octokitInstances (Suc i) rs (loop_body octokitInstances i r s)"

text \<open>\<^verbatim>\<open>GITHUB_TOKENS_STRING.split(',').map(t => t.trim()).filter(Boolean)\<close>\<close>

definition parse_tokens :: "string \<Rightarrow> string list" where
  "parse_tokens tokens_string = filter (\<lambda>t. t \<noteq> []) (map trim (split_js '','' tokens_string))"

text \<open>
  Loading the previous progress: the collection in memory and the set of processed
  repositories, as they are when the loop starts.
\<close>

definition load_progress :: "file_content option \<Rightarrow> ingest_state \<Rightarrow> ingest_state" where
  "load_progress f s =
     (case f of
        None \<Rightarrow> s
      | Some Unparsable \<Rightarrow>
          s\<lparr>console := console s @ [Found_existing_output, Could_not_parse_output]\<rparr>
      | Some (Collection xs) \<Rightarrow>
          s\<lparr>allCommitsData := xs,
            processedRepos := set (map repository xs),
            console := console s @
              [Found_existing_output, Resuming (card (set (map repository xs)))]\<rparr>)"

text \<open>
  The state in which the loop of \<^verbatim>\<open>main\<close> starts, or \<open>None\<close> when \<^verbatim>\<open>main\<close> returns
  before it. \<open>github\<close> gives the client built from a token, \<open>env\<close> is the value of
  \<^verbatim>\<open>GITHUB_TOKENS\<close>, \<open>repoDataList\<close> what \<^verbatim>\<open>parseInputFile\<close> resolved to, and
  \<open>f\<close> the output file as the run finds it.
\<close>

definition initial_state :: "file_content option \<Rightarrow> ingest_state" where
  "initial_state f =
     \<lparr>allCommitsData = [], processedRepos = {}, newReposProcessed = 0,
      output_file = f, console = [Starting]\<rparr>"

definition loop_start ::
  "string option \<Rightarrow> repo_ref list \<Rightarrow> file_content option \<Rightarrow> ingest_state + (string list \<times> ingest_state)"
where
  "loop_start env repoDataList f =
     (let s0 = initial_state f in
      case env of
        None \<Rightarrow> Inl (s0\<lparr>console := console s0 @ [Tokens_not_set]\<rparr>)
      | Some tokens_string \<Rightarrow>
          if tokens_string = [] then Inl (s0\<lparr>console := console s0 @ [Tokens_not_set]\<rparr>)
          else
            let tokens = parse_tokens tokens_string in
            if length tokens = 0 then Inl (s0\<lparr>console := console s0 @ [No_valid_tokens]\<rparr>)
            else
              let s1 = load_progress f (s0\<lparr>console := console s0 @ [Loaded_tokens (length tokens)]\<rparr>)
              in Inr (tokens,
                   s1\<lparr>console := console s1 @ [Found_repositories (length repoDataList)]\<rparr>))"

text \<open>The state of a run that stops after \<open>k\<close> iterations of the loop.\<close>

definition after_iterations ::
  "(string \<Rightarrow> octokit) \<Rightarrow> string option \<Rightarrow> repo_ref list \<Rightarrow> file_content option \<Rightarrow> nat \<Rightarrow> ingest_state"
where
  "after_iterations github env repoDataList f k =
     (case loop_start env repoDataList f of
        Inl s \<Rightarrow> s
      | Inr (tokens, s) \<Rightarrow> ingest_loop (map github tokens) 0 (take k repoDataList) s)"

definition main ::
  "(string \<Rightarrow> octokit) \<Rightarrow> string option \<Rightarrow> repo_ref list \<Rightarrow> file_content option \<Rightarrow> ingest_state"
where
  "main github env repoDataList f =
     (case loop_start env repoDataList f of
        Inl s \<Rightarrow> s
      | Inr (tokens, s) \<Rightarrow>
          let s' = ingest_loop (map github tokens) 0 repoDataList s
          in s'\<lparr>output_file := Some (Collection (allCommitsData s')),
                console := console s' @ [Processed_new (newReposProcessed s'), Success]\<rparr>)"

text \<open>The entries a run can read back from the output file.\<close>

definition saved :: "file_content option \<Rightarrow> repo_history list" where
  "saved f = (case f of Some (Collection xs) \<Rightarrow> xs | _ \<Rightarrow> [])"

section \<open>Ingestor: a run that is cut off\<close>

text \<open>
  \<^verbatim>\<open>fs.writeFileSync\<close> opens the file for writing, which truncates it, then writes the text
  and closes the file. While the call is under way the file is empty or holds a proper prefix
  of the new text, a JSON array that is not closed yet: \<^verbatim>\<open>JSON.parse\<close> rejects it.
\<close>

definition torn_file :: "file_content option" where
  "torn_file = Some Unparsable"

text \<open>
  Where a run can be cut off: outside a write after \<open>k\<close> complete iterations (anywhere from
  the end of iteration \<open>k - 1\<close> to the write of iteration \<open>k\<close>, the fetch included), inside
  the write of the iteration at index \<open>k\<close>, and inside the write that follows the loop.
\<close>

datatype crash_point = Outside_write nat | In_write nat | In_final_write

text \<open>The iteration writes the file when it fetches the repository and the fetch succeeds.\<close>

definition iteration_writes :: "octokit list \<Rightarrow> nat \<Rightarrow> repo_ref \<Rightarrow> ingest_state \<Rightarrow> bool" where
  "iteration_writes octokitInstances i r s \<longleftrightarrow>
     fullName r \<notin> processedRepos s \<and>
     select_octokit octokitInstances i (owner r) (repo r) \<noteq> None"

text \<open>
  The output file as a run cut off at the given point leaves it. A run that returns before
  the loop writes nothing.
\<close>

definition output_file_at ::
  "(string \<Rightarrow> octokit) \<Rightarrow> string option \<Rightarrow> repo_ref list \<Rightarrow> file_content option \<Rightarrow>
   crash_point \<Rightarrow> file_content option"
where
  "output_file_at github env repoDataList f p =
     (case loop_start env repoDataList f of
        Inl s \<Rightarrow> output_file s
      | Inr (tokens, s) \<Rightarrow>
          (case p of
             Outside_write k \<Rightarrow>
               output_file (ingest_loop (map github tokens) 0 (take k repoDataList) s)
           | In_write k \<Rightarrow>
               if k < length repoDataList \<and>
                  iteration_writes (map github tokens) k (repoDataList ! k)
                    (ingest_loop (map github tokens) 0 (take k repoDataList) s)
               then torn_file
               else output_file (ingest_loop (map github tokens) 0 (take k repoDataList) s)
           | In_final_write \<Rightarrow> torn_file))"

section \<open>Summarizer: dates\<close>

text \<open>
  \<^verbatim>\<open>new Date(commit.date)\<close> parses the string with the date parser of the platform, a
  parameter \<open>Date_parse\<close> here: the time value in milliseconds since the epoch, or \<open>None\<close>
  for an invalid date. \<^verbatim>\<open>toISOString\<close> writes a time value in UTC as
  \<^verbatim>\<open>YYYY-MM-DDTHH:mm:ss.sssZ\<close>, the year with a sign and six digits outside 0..9999.
\<close>

definition msPerDay :: int where
  "msPerDay = 86400000"

text \<open>Year, month and day of the proleptic Gregorian calendar, from the days since the epoch.\<close>

definition civil_from_days :: "int \<Rightarrow> int \<times> int \<times> int" where
  "civil_from_days days =
     (let z = days + 719468;
          era = z div 146097;
          doe = z - era * 146097;
          yoe = (doe - doe div 1460 + doe div 36524 - doe div 146096) div 365;
          y = yoe + era * 400;
          doy = doe - (365 * yoe + yoe div 4 - yoe div 100);
          mp = (5 * doy + 2) div 153;
          d = doy - (153 * mp + 2) div 5 + 1;
          m = (if mp < 10 then mp + 3 else mp - 9)
      in (if m \<le> 2 then y + 1 else y, m, d))"

definition pad :: "nat \<Rightarrow> nat \<Rightarrow> string" where
  "pad w n = replicate (w - length (show_nat n)) (CHR ''0'') @ show_nat n"

definition year_string :: "int \<Rightarrow> string" where
  "year_string y =
     (if 0 \<le> y \<and> y \<le> 9999 then pad 4 (nat y)
      else (if y < 0 then ''-'' else ''+'') @ pad 6 (nat \<bar>y\<bar>))"

definition date_string :: "int \<Rightarrow> string" where
  "date_string t =
     (case civil_from_days (t div msPerDay) of
        (y, m, d) \<Rightarrow> year_string y @ ''-'' @ pad 2 (nat m) @ ''-'' @ pad 2 (nat d))"

definition time_string :: "int \<Rightarrow> string" where
  "time_string t =
     (let r = nat (t mod msPerDay) in
      pad 2 (r div 3600000) @ '':'' @ pad 2 (r div 60000 mod 60) @ '':'' @
      pad 2 (r div 1000 mod 60) @ ''.'' @ pad 3 (r mod 1000))"

definition toISOString :: "int \<Rightarrow> string" where
  "toISOString t = date_string t @ ''T'' @ time_string t @ ''Z''"

datatype js_error = RangeError | SyntaxError

text \<open>\<^verbatim>\<open>new Date(commit.date).toISOString().split('T')[0]\<close>\<close>

definition date_key :: "(string \<Rightarrow> int option) \<Rightarrow> string \<Rightarrow> js_error + string" where
  "date_key Date_parse d =
     (case Date_parse d of
        None \<Rightarrow> Inl RangeError
      | Some t \<Rightarrow> Inr (hd (split_js ''T'' (toISOString t))))"

section \<open>Summarizer: the two accumulator objects\<close>

text \<open>
  \<^verbatim>\<open>commitsByDay\<close> and \<^verbatim>\<open>commitsByEcosystem\<close> are object literals \<^verbatim>\<open>{}\<close>: reading
  a key that is not an own property goes on to \<^verbatim>\<open>Object.prototype\<close>.

  The keys of \<^verbatim>\<open>commitsByDay\<close> are dates written by \<open>date_string\<close>. They start with a
  digit or a sign, so none of them names a property of \<^verbatim>\<open>Object.prototype\<close>
  (lemma \<open>date_string_not_inherited\<close> below) and the object is a finite map to counts.
\<close>

type_synonym daily_summary = "string \<rightharpoonup> nat"

text \<open>
  \<^verbatim>\<open>if (!commitsByDay[date]) commitsByDay[date] = 0; commitsByDay[date]++;\<close>
  A missing key and a key holding 0 are both falsy and are both (re)set to 0.
\<close>

definition count_day :: "daily_summary \<Rightarrow> string \<Rightarrow> daily_summary" where
  "count_day commitsByDay k =
     commitsByDay(k \<mapsto> (case commitsByDay k of None \<Rightarrow> 0 | Some n \<Rightarrow> n) + 1)"

text \<open>
  The keys of \<^verbatim>\<open>commitsByEcosystem\<close> are the ecosystem labels of the input, any strings.
  A value of the object is a number or, once \<^verbatim>\<open>+=\<close> has met something that is not a
  number, a string.
\<close>

datatype jsval = Num nat | NaN | Str string

type_synonym js_object = "string \<rightharpoonup> jsval"

text \<open>
  The function-valued properties of \<^verbatim>\<open>Object.prototype\<close>: property key and name of the
  function. The remaining property, \<^verbatim>\<open>__proto__\<close>, is an accessor.
\<close>

definition Object_prototype_functions :: "(string \<times> string) list" where
  "Object_prototype_functions =
     [(''constructor'', ''Object''),
      (''__defineGetter__'', ''__defineGetter__''),
      (''__defineSetter__'', ''__defineSetter__''),
      (''hasOwnProperty'', ''hasOwnProperty''),
      (''__lookupGetter__'', ''__lookupGetter__''),
      (''__lookupSetter__'', ''__lookupSetter__''),
      (''isPrototypeOf'', ''isPrototypeOf''),
      (''propertyIsEnumerable'', ''propertyIsEnumerable''),
      (''toString'', ''toString''),
      (''valueOf'', ''valueOf''),
      (''toLocaleString'', ''toLocaleString'')]"

definition inherited_keys :: "string list" where
  "inherited_keys = ''__proto__'' # map fst Object_prototype_functions"

text \<open>What \<^verbatim>\<open>obj[k]\<close> reads.\<close>

datatype property = Undefined | Own jsval | Inherited_function string | Inherited_proto

definition obj_get :: "js_object \<Rightarrow> string \<Rightarrow> property" where
  "obj_get obj k =
     (case obj k of
        Some v \<Rightarrow> Own v
      | None \<Rightarrow>
          if k = ''__proto__'' then Inherited_proto
          else (case map_of Object_prototype_functions k of
                  Some f \<Rightarrow> Inherited_function f
                | None \<Rightarrow> Undefined))"

text \<open>
  \<^verbatim>\<open>obj[k] = v\<close> for a primitive \<open>v\<close>: an own data property is created or updated, except
  for \<^verbatim>\<open>__proto__\<close>, whose setter ignores a value that is neither an object nor null.
\<close>

definition obj_set :: "js_object \<Rightarrow> string \<Rightarrow> jsval \<Rightarrow> js_object" where
  "obj_set obj k v = (if k = ''__proto__'' then obj else obj(k \<mapsto> v))"

fun falsy :: "property \<Rightarrow> bool" where
  "falsy Undefined = True"
| "falsy (Own (Num n)) = (n = 0)"
| "falsy (Own NaN) = True"
| "falsy (Own (Str s)) = (s = [])"
| "falsy (Inherited_function f) = False"
| "falsy Inherited_proto = False"

text \<open>
  \<^verbatim>\<open>x + n\<close> for a number \<open>n\<close>: addition of numbers, and concatenation with the digits of
  \<open>n\<close> once \<open>x\<close> converts to a string, as a function and an object do.
\<close>

fun plus_number :: "property \<Rightarrow> nat \<Rightarrow> jsval" where
  "plus_number Undefined n = NaN"
| "plus_number (Own (Num a)) n = Num (a + n)"
| "plus_number (Own NaN) n = NaN"
| "plus_number (Own (Str s)) n = Str (s @ show_nat n)"
| "plus_number (Inherited_function f) n =
     Str (''function '' @ f @ ''() { [native code] }'' @ show_nat n)"
| "plus_number Inherited_proto n = Str (''[object Object]'' @ show_nat n)"

text \<open>
  \<^verbatim>\<open>if (!commitsByEcosystem[ecosystem]) commitsByEcosystem[ecosystem] = 0;\<close>
  \<^verbatim>\<open>commitsByEcosystem[ecosystem] += commitCount;\<close>
\<close>

definition add_commits :: "js_object \<Rightarrow> string \<Rightarrow> nat \<Rightarrow> js_object" where
  "add_commits commitsByEcosystem k commitCount =
     (let obj = (if falsy (obj_get commitsByEcosystem k) then obj_set commitsByEcosystem k (Num 0)
                 else commitsByEcosystem)
      in obj_set obj k (plus_number (obj_get obj k) commitCount))"

section \<open>Summarizer: the two aggregations\<close>

text \<open>The inner \<^verbatim>\<open>forEach\<close> of the first aggregation: the commits of one repository.\<close>

fun count_commits ::
  "(string \<Rightarrow> int option) \<Rightarrow> commit_record list \<Rightarrow> daily_summary \<Rightarrow> js_error + daily_summary"
where
  "count_commits Date_parse [] commitsByDay = Inr commitsByDay"
| "count_commits Date_parse (commit # cs) commitsByDay =
     (case date commit of
        None \<Rightarrow> count_commits Date_parse cs commitsByDay
      | Some d \<Rightarrow>
          if d = [] then count_commits Date_parse cs commitsByDay
          else (case date_key Date_parse d of
                  Inl e \<Rightarrow> Inl e
                | Inr k \<Rightarrow> count_commits Date_parse cs (count_day commitsByDay k)))"

text \<open>The outer \<^verbatim>\<open>forEach\<close> of the first aggregation.\<close>

fun count_repos ::
  "(string \<Rightarrow> int option) \<Rightarrow> repo_history list \<Rightarrow> daily_summary \<Rightarrow> js_error + daily_summary"
where
  "count_repos Date_parse [] commitsByDay = Inr commitsByDay"
| "count_repos Date_parse (repoData # rest) commitsByDay =
     (case count_commits Date_parse (commits repoData) commitsByDay of
        Inl e \<Rightarrow> Inl e
      | Inr m \<Rightarrow> count_repos Date_parse rest m)"

record ecosystem_summary =
  totals :: js_object
  overallTotal :: nat

text \<open>The second aggregation; the record holds \<^verbatim>\<open>commitsByEcosystem\<close> and \<^verbatim>\<open>totalCommits\<close>.\<close>

fun total_repos :: "repo_history list \<Rightarrow> ecosystem_summary \<Rightarrow> ecosystem_summary" where
  "total_repos [] acc = acc"
| "total_repos (repoData # rest) acc =
     (let commitCount = length (commits repoData)
      in total_repos rest
           \<lparr>totals = add_commits (totals acc) (ecosystem repoData) commitCount,
            overallTotal = overallTotal acc + commitCount\<rparr>)"

section \<open>Summarizer: the script\<close>

record summary_files =
  input_file :: "file_content option"
  daily_file :: "daily_summary option"
  eco_file :: "ecosystem_summary option"

text \<open>
  How \<^verbatim>\<open>summarizeData\<close> ends: with the error message about the missing input file, with
  an exception nobody catches, or after both summaries are written.
\<close>

datatype outcome = Missing_input | Thrown js_error | Complete

definition summarizeData :: "(string \<Rightarrow> int option) \<Rightarrow> summary_files \<Rightarrow> outcome \<times> summary_files" where
  "summarizeData Date_parse files =
     (case input_file files of
        None \<Rightarrow> (Missing_input, files)
      | Some Unparsable \<Rightarrow> (Thrown SyntaxError, files)
      | Some (Collection jsonData) \<Rightarrow>
          (case count_repos Date_parse jsonData Map.empty of
             Inl e \<Rightarrow> (Thrown e, files)
           | Inr commitsByDay \<Rightarrow>
               let eco = total_repos jsonData \<lparr>totals = Map.empty, overallTotal = 0\<rparr>
               in (Complete, files\<lparr>daily_file := Some commitsByDay, eco_file := Some eco\<rparr>)))"

section \<open>What the summaries are expected to count\<close>

definition all_commits :: "repo_history list \<Rightarrow> commit_record list" where
  "all_commits jsonData = concat (map commits jsonData)"

text \<open>
  The UTC calendar date of a commit: the date, without the time of day, of the time value
  its date string parses to. A commit whose date is absent or empty has none.
\<close>

definition utc_date :: "(string \<Rightarrow> int option) \<Rightarrow> commit_record \<Rightarrow> string option" where
  "utc_date Date_parse c =
     (case date c of
        None \<Rightarrow> None
      | Some d \<Rightarrow> if d = [] then None else map_option date_string (Date_parse d))"

definition commits_on :: "(string \<Rightarrow> int option) \<Rightarrow> repo_history list \<Rightarrow> string \<Rightarrow> nat" where
  "commits_on Date_parse jsonData k =
     length (filter (\<lambda>c. utc_date Date_parse c = Some k) (all_commits jsonData))"

definition commits_of_ecosystem :: "repo_history list \<Rightarrow> string \<Rightarrow> nat" where
  "commits_of_ecosystem jsonData e =
     length (all_commits (filter (\<lambda>r. ecosystem r = e) jsonData))"

text \<open>Every non-empty date of the input parses.\<close>

definition dates_parse :: "(string \<Rightarrow> int option) \<Rightarrow> commit_record list \<Rightarrow> bool" where
  "dates_parse Date_parse cs =
     list_all (\<lambda>c. case date c of None \<Rightarrow> True
                   | Some d \<Rightarrow> d = [] \<or> Date_parse d \<noteq> None) cs"

text \<open>
  A counter after \<open>n\<close> more increments: a key that was missing and is never counted stays
  missing.
\<close>

definition tally :: "nat option \<Rightarrow> nat \<Rightarrow> nat option" where
  "tally v n = (if v = None \<and> n = 0 then None else Some ((case v of None \<Rightarrow> 0 | Some a \<Rightarrow> a) + n))"

text \<open>
  What a summary can depend on when the order of the repositories and of their commits is
  left out: for each entry, its ecosystem label and the multiset of its commits.
\<close>

definition shape :: "repo_history \<Rightarrow> string \<times> commit_record multiset" where
  "shape r = (ecosystem r, mset (commits r))"

definition same_up_to_order :: "repo_history list \<Rightarrow> repo_history list \<Rightarrow> bool" where
  "same_up_to_order xs ys \<longleftrightarrow> mset (map shape xs) = mset (map shape ys)"

text \<open>The number a value of \<^verbatim>\<open>totals\<close> stands for; a value that is no number counts 0.\<close>

definition count_of :: "jsval option \<Rightarrow> nat" where
  "count_of v = (case v of Some (Num n) \<Rightarrow> n | _ \<Rightarrow> 0)"

section \<open>Example inputs\<close>

definition commit_without_date :: commit_record where
  "commit_without_date = \<lparr>sha = ''c0ffee'', author = ''Unknown'', date = None, message = ''wip''\<rparr>"

definition commit_with_bad_date :: commit_record where
  "commit_with_bad_date =
     \<lparr>sha = ''decade'', author = ''Ada'', date = Some ''not a date'', message = ''fix''\<rparr>"

definition no_files :: summary_files where
  "no_files = \<lparr>input_file = None, daily_file = None, eco_file = None\<rparr>"

definition proto_history :: repo_history where
  "proto_history =
     \<lparr>repository = ''a/b'', ecosystem = ''__proto__'', commits = [commit_without_date]\<rparr>"

definition constructor_one :: repo_history where
  "constructor_one =
     \<lparr>repository = ''a/b'', ecosystem = ''constructor'', commits = [commit_without_date]\<rparr>"

definition constructor_two :: repo_history where
  "constructor_two =
     \<lparr>repository = ''c/d'', ecosystem = ''constructor'',
      commits = [commit_without_date, commit_without_date]\<rparr>"

definition commit_new_year :: commit_record where
  "commit_new_year =
     \<lparr>sha = ''facade'', author = ''Ada'', date = Some ''2024-01-01T10:00:00Z'', message = ''init''\<rparr>"

definition example_parse :: "string \<Rightarrow> int option" where
  "example_parse d = (if d = ''2024-01-01T10:00:00Z'' then Some 1704103200000 else None)"

definition npm_history :: repo_history where
  "npm_history =
     \<lparr>repository = ''a/b'', ecosystem = ''npm'',
      commits = [commit_without_date, commit_new_year]\<rparr>"

definition mixed_history :: repo_history where
  "mixed_history =
     \<lparr>repository = ''a/b'', ecosystem = ''npm'',
      commits = [commit_new_year, commit_with_bad_date]\<rparr>"

definition ref_ab :: repo_ref where
  "ref_ab = \<lparr>owner = ''a'', repo = ''b'', ref_ecosystem = ''npm''\<rparr>"

definition ref_cd :: repo_ref where
  "ref_cd = \<lparr>owner = ''c'', repo = ''d'', ref_ecosystem = ''npm''\<rparr>"

definition history_ab :: repo_history where
  "history_ab = \<lparr>repository = ''a/b'', ecosystem = ''npm'', commits = []\<rparr>"

definition history_cd :: repo_history where
  "history_cd = \<lparr>repository = ''c/d'', ecosystem = ''npm'', commits = []\<rparr>"

text \<open>A service that fails every request, and one that only knows the repository c/d.\<close>

definition offline :: "string \<Rightarrow> octokit" where
  "offline token ow rp = None"

definition only_cd :: "string \<Rightarrow> octokit" where
  "only_cd token ow rp = (if ow = ''c'' \<and> rp = ''d'' then Some [] else None)"

section \<open>Properties of the string operations\<close>

lemma split_from_not_Nil: "split_from sep cur s \<noteq> []"
  by (induction sep cur s rule: split_from.induct) auto

text \<open>
  When the first occurrence of the separator starts right after \<open>pre\<close>, the first segment is
  \<open>pre\<close> and the search goes on after the separator.
\<close>

lemma split_from_first:
  assumes "sep \<noteq> []"
    and "\<forall>j<length pre. take (length sep) (drop j (pre @ sep @ post)) \<noteq> sep"
  shows "split_from sep cur (pre @ sep @ post) = (cur @ pre) # split_from sep [] post"
  using assms(2)
proof (induction pre arbitrary: cur)
  case Nil
  from assms(1) obtain c cs where sep: "sep = c # cs" by (cases sep) auto
  have "split_from sep cur (sep @ post) = cur # split_from sep [] (drop (length sep) (sep @ post))"
    unfolding sep by simp
  then show ?case by simp
next
  case (Cons p ps)
  from Cons.prems have first: "take (length sep) (p # ps @ sep @ post) \<noteq> sep"
    by (metis append_Cons drop0 length_greater_0_conv list.distinct(1))
  have rest: "\<forall>j<length ps. take (length sep) (drop j (ps @ sep @ post)) \<noteq> sep"
  proof (intro allI impI)
    fix j assume "j < length ps"
    then have "Suc j < length (p # ps)" by simp
    with Cons.prems have "take (length sep) (drop (Suc j) ((p # ps) @ sep @ post)) \<noteq> sep"
      by blast
    then show "take (length sep) (drop j (ps @ sep @ post)) \<noteq> sep" by simp
  qed
  have "split_from sep cur ((p # ps) @ sep @ post) = split_from sep (cur @ [p]) (ps @ sep @ post)"
    using first by simp
  also have "\<dots> = ((cur @ [p]) @ ps) # split_from sep [] post"
    by (rule Cons.IH [OF rest])
  finally show ?case by simp
qed

text \<open>A string that contains the separator has a first occurrence of it.\<close>

lemma first_occurrence_exists:
  assumes "name = a @ sep @ b"
  shows "\<exists>pre post. name = pre @ sep @ post \<and>
           (\<forall>j<length pre. take (length sep) (drop j name) \<noteq> sep)"
proof -
  define P where "P n \<longleftrightarrow> (\<exists>post. name = take n name @ sep @ post)" for n
  have "P (length a)" using assms by (auto simp: P_def)
  then obtain n where n: "P n" and least: "\<forall>m<n. \<not> P m"
    by (metis exists_least_iff)
  from n obtain post where post: "name = take n name @ sep @ post" by (auto simp: P_def)
  have "\<forall>j<length (take n name). take (length sep) (drop j name) \<noteq> sep"
  proof (intro allI impI notI)
    fix j assume j: "j < length (take n name)" and eq: "take (length sep) (drop j name) = sep"
    then have "j < n" by simp
    have "name = take j name @ drop j name" by simp
    also have "drop j name = take (length sep) (drop j name) @ drop (length sep) (drop j name)"
      by (rule append_take_drop_id [symmetric])
    finally have "name = take j name @ sep @ drop (length sep) (drop j name)" using eq by simp
    then have "P j" unfolding P_def by blast
    with least \<open>j < n\<close> show False by blast
  qed
  with post show ?thesis by blast
qed

section \<open>Cleaning the ecosystem label\<close>

text \<open>
  Claim C8. An absent label and the empty label are cleaned to \<open>Unknown\<close>. A label that
  contains the delimiter \<open>'' - ''\<close>, with its first occurrence right after \<open>pre\<close> (no
  occurrence starts at an earlier index), is cleaned to \<open>pre\<close> trimmed.
\<close>

theorem cleanEcosystemName_first_segment:
  "cleanEcosystemName None = ''Unknown'' \<and>
   cleanEcosystemName (Some []) = ''Unknown'' \<and>
   ((\<forall>j<length pre. take 3 (drop j (pre @ '' - '' @ post)) \<noteq> '' - '') \<longrightarrow>
      cleanEcosystemName (Some (pre @ '' - '' @ post)) = trim pre)"
proof (intro conjI impI)
  assume first: "\<forall>j<length pre. take 3 (drop j (pre @ '' - '' @ post)) \<noteq> '' - ''"
  have len: "length '' - '' = 3" by simp
  from first
  have "\<forall>j<length pre. take (length '' - '') (drop j (pre @ '' - '' @ post)) \<noteq> '' - ''"
    by (simp only: len)
  then have "split_from '' - '' [] (pre @ '' - '' @ post) = ([] @ pre) # split_from '' - '' [] post"
    by (intro split_from_first) simp
  then show "cleanEcosystemName (Some (pre @ '' - '' @ post)) = trim pre"
    by (simp add: cleanEcosystemName_def split_js_def)
qed (simp_all add: cleanEcosystemName_def)

theorem cleanEcosystemName_first_segment_witness:
  "cleanEcosystemName (Some ''npm  - registry - mirror'') = ''npm''"
proof -
  have h: "\<forall>j<length ''npm ''. take 3 (drop j (''npm '' @ '' - '' @ ''registry - mirror'')) \<noteq> '' - ''"
    by (simp add: less_Suc_eq)
  have "trim ''npm '' = ''npm''"
    by (simp add: trim_def is_white_space_def)
  with h cleanEcosystemName_first_segment [of "''npm ''" "''registry - mirror''"]
  show ?thesis by simp
qed

section \<open>Cleaning the repository URL\<close>

lemma cleanRepoUrl_not_a_url: "new_URL u = None \<Longrightarrow> cleanRepoUrl new_URL u = None"
  by (simp add: cleanRepoUrl_def)

lemma cleanRepoUrl_other_host:
  "new_URL u = Some parsedUrl \<Longrightarrow> hostname parsedUrl \<noteq> ''github.com'' \<Longrightarrow>
   cleanRepoUrl new_URL u = None"
  by (simp add: cleanRepoUrl_def)

text \<open>
  Claim C1. The URL \<^verbatim>\<open>https://github.com/git/git\<close> parses, its host is
  \<^verbatim>\<open>github.com\<close> and its path \<^verbatim>\<open>/git/git\<close> has two segments, yet
  \<^verbatim>\<open>cleanRepoUrl\<close> returns no result: the unescaped dot of \<^verbatim>\<open>/.git$/\<close> matches the
  slash, the replacement leaves \<^verbatim>\<open>git\<close>, and the split yields one part.
\<close>

theorem cleanRepoUrl_git_git:
  "cleanRepoUrl (\<lambda>u. Some \<lparr>hostname = ''github.com'', pathname = ''/git/git''\<rparr>)
     ''https://github.com/git/git'' = None"
  by (simp add: cleanRepoUrl_def replace_dot_git_def split_js_def LF_def CR_def)

section \<open>Summarizer: failures\<close>

lemma date_key_error: "date_key Date_parse d = Inl e \<Longrightarrow> e = RangeError"
  by (auto simp: date_key_def split: option.splits)

lemma count_commits_error: "count_commits Date_parse cs m = Inl e \<Longrightarrow> e = RangeError"
  by (induction cs arbitrary: m) (auto split: option.splits sum.splits if_splits dest: date_key_error)

lemma count_commits_invalid:
  assumes "commit \<in> set cs" "date commit = Some d" "d \<noteq> []" "Date_parse d = None"
  shows "count_commits Date_parse cs m = Inl RangeError"
  using assms(1)
proof (induction cs arbitrary: m)
  case Nil
  then show ?case by simp
next
  case (Cons c cs)
  show ?case
  proof (cases "c = commit")
    case True
    with assms(2-4) show ?thesis by (simp add: date_key_def)
  next
    case False
    with Cons.prems have "commit \<in> set cs" by simp
    then have "\<And>m. count_commits Date_parse cs m = Inl RangeError" by (rule Cons.IH)
    then show ?thesis
      by (auto split: option.splits sum.splits dest: date_key_error)
  qed
qed

lemma count_repos_invalid:
  assumes "repoData \<in> set jsonData" "commit \<in> set (commits repoData)"
    "date commit = Some d" "d \<noteq> []" "Date_parse d = None"
  shows "count_repos Date_parse jsonData m = Inl RangeError"
  using assms(1)
proof (induction jsonData arbitrary: m)
  case Nil
  then show ?case by simp
next
  case (Cons r rs)
  show ?case
  proof (cases "r = repoData")
    case True
    with assms(2-5) have "count_commits Date_parse (commits r) m = Inl RangeError"
      by (simp add: count_commits_invalid)
    then show ?thesis by simp
  next
    case False
    with Cons.prems have "repoData \<in> set rs" by simp
    then have "\<And>m. count_repos Date_parse rs m = Inl RangeError" by (rule Cons.IH)
    then show ?thesis
      by (auto split: sum.splits dest: count_commits_error)
  qed
qed

text \<open>
  Claim C9. When the input collection file does not exist, \<^verbatim>\<open>summarizeData\<close> reports the
  error and returns: the daily summary file and the ecosystem summary file are left as they
  were.
\<close>

theorem summarizeData_missing_input:
  "input_file files = None \<Longrightarrow> summarizeData Date_parse files = (Missing_input, files)"
  by (simp add: summarizeData_def)

theorem summarizeData_missing_input_witness:
  "summarizeData (\<lambda>d. None) no_files = (Missing_input, no_files)"
  using summarizeData_missing_input [of no_files "\<lambda>d. None"]
  by (simp add: no_files_def)

text \<open>
  Claim C10. When some commit of the input has a truthy date that does not parse as a valid
  date, \<^verbatim>\<open>toISOString\<close> throws a \<^verbatim>\<open>RangeError\<close> in the daily aggregation, nothing
  catches it, and neither output file is written.
\<close>

theorem summarizeData_invalid_date:
  assumes "input_file files = Some (Collection jsonData)"
    and "repoData \<in> set jsonData" and "commit \<in> set (commits repoData)"
    and "date commit = Some d" and "d \<noteq> []" and "Date_parse d = None"
  shows "summarizeData Date_parse files = (Thrown RangeError, files)"
proof -
  have "count_repos Date_parse jsonData Map.empty = Inl RangeError"
    using assms(2-6) by (rule count_repos_invalid)
  with assms(1) show ?thesis
    by (simp add: summarizeData_def)
qed

theorem summarizeData_invalid_date_witness:
  "summarizeData (\<lambda>d. None)
     (no_files\<lparr>input_file := Some (Collection
        [\<lparr>repository = ''a/b'', ecosystem = ''npm'',
          commits = [commit_without_date, commit_with_bad_date]\<rparr>])\<rparr>) =
   (Thrown RangeError,
    no_files\<lparr>input_file := Some (Collection
        [\<lparr>repository = ''a/b'', ecosystem = ''npm'',
          commits = [commit_without_date, commit_with_bad_date]\<rparr>])\<rparr>)"
  using summarizeData_invalid_date
    [of "no_files\<lparr>input_file := Some (Collection
          [\<lparr>repository = ''a/b'', ecosystem = ''npm'',
            commits = [commit_without_date, commit_with_bad_date]\<rparr>])\<rparr>"
        "[\<lparr>repository = ''a/b'', ecosystem = ''npm'',
            commits = [commit_without_date, commit_with_bad_date]\<rparr>]"
        "\<lparr>repository = ''a/b'', ecosystem = ''npm'',
            commits = [commit_without_date, commit_with_bad_date]\<rparr>"
        commit_with_bad_date "''not a date''" "\<lambda>d. None"]
  by (simp add: commit_with_bad_date_def)

section \<open>Summarizer: the date keys\<close>

lemma show_nat_digits: "set (show_nat n) \<subseteq> set ''0123456789''"
proof (induction n rule: show_nat.induct)
  case (1 n)
  have nth: "\<And>i. i < 10 \<Longrightarrow> ''0123456789'' ! i \<in> set ''0123456789''"
    by (rule nth_mem) simp
  show ?case
  proof (cases "n < 10")
    case True
    then show ?thesis using nth [of n] by (subst show_nat.simps) simp
  next
    case False
    have "n mod 10 < 10" by simp
    with False "1.IH" nth [of "n mod 10"] show ?thesis
      by (subst show_nat.simps) simp
  qed
qed

lemma pad_digits: "set (pad w n) \<subseteq> set ''0123456789''"
proof -
  have "set (replicate (w - length (show_nat n)) (CHR ''0'')) \<subseteq> {CHR ''0''}"
    by auto
  moreover have "CHR ''0'' \<in> set ''0123456789''" by simp
  ultimately show ?thesis
    using show_nat_digits [of n] unfolding pad_def set_append by blast
qed

lemma digits_date_chars: "set ''0123456789'' \<subseteq> set ''0123456789+-''"
  by simp

lemma pad_date_chars: "set (pad w n) \<subseteq> set ''0123456789+-''"
  using pad_digits [of w n] digits_date_chars by (rule subset_trans)

lemma year_string_chars: "set (year_string y) \<subseteq> set ''0123456789+-''"
proof -
  have sign: "set ''-'' \<subseteq> set ''0123456789+-''" "set ''+'' \<subseteq> set ''0123456789+-''"
    by simp_all
  show ?thesis
  proof (cases "0 \<le> y \<and> y \<le> 9999")
    case True
    then have "year_string y = pad 4 (nat y)" by (simp add: year_string_def)
    then show ?thesis by (simp only: pad_date_chars)
  next
    case False
    then have "year_string y = (if y < 0 then ''-'' else ''+'') @ pad 6 (nat \<bar>y\<bar>)"
      by (simp only: year_string_def if_False)
    then show ?thesis
      using sign pad_date_chars [of 6 "nat \<bar>y\<bar>"]
      by (cases "y < 0") (simp_all only: set_append Un_subset_iff if_True if_False simp_thms)
  qed
qed

lemma date_string_chars: "set (date_string t) \<subseteq> set ''0123456789+-''"
proof -
  obtain y m d where c: "civil_from_days (t div msPerDay) = (y, m, d)"
    by (cases "civil_from_days (t div msPerDay)") auto
  have dash: "set ''-'' \<subseteq> set ''0123456789+-''" by simp
  have "date_string t = year_string y @ ''-'' @ pad 2 (nat m) @ ''-'' @ pad 2 (nat d)"
    by (simp add: date_string_def c)
  then show ?thesis
    using year_string_chars [of y] pad_date_chars [of 2 "nat m"] pad_date_chars [of 2 "nat d"] dash
    by (simp only: set_append Un_subset_iff simp_thms)
qed

lemma date_string_no_T: "CHR ''T'' \<notin> set (date_string t)"
proof
  assume "CHR ''T'' \<in> set (date_string t)"
  with date_string_chars [of t] have "CHR ''T'' \<in> set ''0123456789+-''" by blast
  then show False by simp
qed

lemma show_nat_not_Nil: "show_nat n \<noteq> []"
  by (subst show_nat.simps) simp

lemma date_string_not_Nil: "date_string t \<noteq> []"
  by (auto simp: date_string_def split: prod.splits)

lemma date_string_not_inherited: "date_string t \<notin> set inherited_keys"
proof
  assume "date_string t \<in> set inherited_keys"
  then have "\<exists>k \<in> set inherited_keys. set k \<subseteq> set ''0123456789+-''"
    using date_string_chars [of t] by blast
  then show False
    by (simp add: inherited_keys_def Object_prototype_functions_def)
qed

lemma hd_split_single:
  assumes "c \<notin> set pre"
  shows "hd (split_js [c] (pre @ [c] @ post)) = pre"
proof -
  have "\<forall>j<length pre. take (length [c]) (drop j (pre @ [c] @ post)) \<noteq> [c]"
  proof (intro allI impI)
    fix j assume j: "j < length pre"
    then have "take (length [c]) (drop j (pre @ [c] @ post)) = [pre ! j]"
      by (simp add: take_Suc_conv_app_nth hd_drop_conv_nth take_Suc)
    moreover have "pre ! j \<noteq> c" using assms j by (metis nth_mem)
    ultimately show "take (length [c]) (drop j (pre @ [c] @ post)) \<noteq> [c]" by simp
  qed
  then have "split_from [c] [] (pre @ [c] @ post) = ([] @ pre) # split_from [c] [] post"
    by (intro split_from_first) simp
  then show ?thesis by (simp add: split_js_def)
qed

lemma date_key_valid: "Date_parse d = Some t \<Longrightarrow> date_key Date_parse d = Inr (date_string t)"
  using hd_split_single [OF date_string_no_T, of t "time_string t @ ''Z''"]
  by (simp add: date_key_def toISOString_def)

section \<open>Summarizer: what the aggregations compute\<close>

lemma tally_0: "tally v 0 = v"
  by (cases v) (simp_all add: tally_def)

lemma tally_tally: "tally (tally v a) b = tally v (a + b)"
  by (cases v) (simp_all add: tally_def)

lemma count_day_tally: "count_day m key k = (if k = key then tally (m k) 1 else m k)"
  by (simp add: count_day_def tally_def)

lemma count_commits_closed:
  assumes "dates_parse Date_parse cs"
  shows "\<exists>m'. count_commits Date_parse cs m = Inr m' \<and>
           (\<forall>k. m' k = tally (m k) (length (filter (\<lambda>c. utc_date Date_parse c = Some k) cs)))"
  using assms
proof (induction cs arbitrary: m)
  case Nil
  then show ?case by (simp add: tally_0)
next
  case (Cons c cs)
  from Cons.prems have rest: "dates_parse Date_parse cs" by (simp add: dates_parse_def)
  show ?case
  proof (cases "utc_date Date_parse c")
    case None
    with Cons.prems have step: "count_commits Date_parse (c # cs) m = count_commits Date_parse cs m"
      by (auto simp: utc_date_def dates_parse_def split: option.splits if_splits)
    have f: "\<And>k. filter (\<lambda>c. utc_date Date_parse c = Some k) (c # cs) =
                  filter (\<lambda>c. utc_date Date_parse c = Some k) cs"
      using None by simp
    show ?thesis unfolding step f by (rule Cons.IH [OF rest])
  next
    case (Some key)
    then obtain d t where d: "date c = Some d" "d \<noteq> []" "Date_parse d = Some t" "key = date_string t"
      by (auto simp: utc_date_def split: option.splits if_splits)
    then have step: "count_commits Date_parse (c # cs) m = count_commits Date_parse cs (count_day m key)"
      by (simp add: date_key_valid)
    from Cons.IH [OF rest, of "count_day m key"]
    obtain m' where m': "count_commits Date_parse cs (count_day m key) = Inr m'"
      and cl: "\<And>k. m' k = tally (count_day m key k)
                 (length (filter (\<lambda>c. utc_date Date_parse c = Some k) cs))"
      by blast
    have "m' k = tally (m k) (length (filter (\<lambda>c. utc_date Date_parse c = Some k) (c # cs)))" for k
    proof (cases "k = key")
      case True
      then show ?thesis using Some by (simp add: cl count_day_tally tally_tally)
    next
      case False
      then show ?thesis using Some by (simp add: cl count_day_tally)
    qed
    then show ?thesis unfolding step m' by blast
  qed
qed

lemma count_repos_closed:
  assumes "dates_parse Date_parse (all_commits jsonData)"
  shows "\<exists>m'. count_repos Date_parse jsonData m = Inr m' \<and>
           (\<forall>k. m' k = tally (m k) (commits_on Date_parse jsonData k))"
  using assms
proof (induction jsonData arbitrary: m)
  case Nil
  then show ?case by (simp add: commits_on_def all_commits_def tally_0)
next
  case (Cons r rs)
  from Cons.prems have here: "dates_parse Date_parse (commits r)"
    and rest: "dates_parse Date_parse (all_commits rs)"
    by (simp_all add: dates_parse_def all_commits_def)
  from count_commits_closed [OF here, of m]
  obtain m1 where m1: "count_commits Date_parse (commits r) m = Inr m1"
    and c1: "\<And>k. m1 k = tally (m k) (length (filter (\<lambda>c. utc_date Date_parse c = Some k) (commits r)))"
    by blast
  from Cons.IH [OF rest, of m1]
  obtain m' where m': "count_repos Date_parse rs m1 = Inr m'"
    and c2: "\<And>k. m' k = tally (m1 k) (commits_on Date_parse rs k)"
    by blast
  have on: "\<And>k. commits_on Date_parse (r # rs) k =
      length (filter (\<lambda>c. utc_date Date_parse c = Some k) (commits r)) + commits_on Date_parse rs k"
    by (simp add: commits_on_def all_commits_def)
  have "count_repos Date_parse (r # rs) m = Inr m'" using m1 m' by simp
  moreover have "\<forall>k. m' k = tally (m k) (commits_on Date_parse (r # rs) k)"
    by (simp add: c2 c1 on tally_tally)
  ultimately show ?case by blast
qed

lemma total_repos_overall:
  "overallTotal (total_repos rs acc) = overallTotal acc + length (all_commits rs)"
  by (induction rs arbitrary: acc) (simp_all add: all_commits_def Let_def)

lemma ordinary_key:
  "e \<notin> set inherited_keys \<Longrightarrow> e \<noteq> ''__proto__'' \<and> map_of Object_prototype_functions e = None"
  by (simp add: inherited_keys_def map_of_eq_None_iff)

lemma add_commits_other: "k \<noteq> e \<Longrightarrow> add_commits obj k n e = obj e"
  by (simp add: add_commits_def obj_set_def Let_def)

lemma add_commits_ordinary_None:
  "e \<notin> set inherited_keys \<Longrightarrow> obj e = None \<Longrightarrow> add_commits obj e n e = Some (Num n)"
  by (drule ordinary_key) (simp add: add_commits_def obj_set_def obj_get_def Let_def)

lemma add_commits_ordinary_Num:
  "e \<notin> set inherited_keys \<Longrightarrow> obj e = Some (Num a) \<Longrightarrow> add_commits obj e n e = Some (Num (a + n))"
  by (drule ordinary_key) (simp add: add_commits_def obj_set_def obj_get_def Let_def)

lemma commits_of_ecosystem_Cons:
  "commits_of_ecosystem (r # rs) e =
     (if ecosystem r = e then length (commits r) else 0) + commits_of_ecosystem rs e"
  by (simp add: commits_of_ecosystem_def all_commits_def)

lemma commits_of_ecosystem_absent:
  "e \<notin> ecosystem ` set rs \<Longrightarrow> commits_of_ecosystem rs e = 0"
  by (induction rs) (auto simp: commits_of_ecosystem_Cons, simp add: commits_of_ecosystem_def all_commits_def)

lemma total_repos_ordinary:
  assumes "e \<notin> set inherited_keys"
    and "(totals acc e = None \<and> a = 0) \<or> totals acc e = Some (Num a)"
  shows "totals (total_repos rs acc) e =
     (if e \<in> ecosystem ` set rs then Some (Num (a + commits_of_ecosystem rs e))
      else totals acc e)"
  using assms(2)
proof (induction rs arbitrary: acc a)
  case Nil
  then show ?case by simp
next
  case (Cons r rs)
  let ?acc = "\<lparr>totals = add_commits (totals acc) (ecosystem r) (length (commits r)),
               overallTotal = overallTotal acc + length (commits r)\<rparr>"
  have step: "total_repos (r # rs) acc = total_repos rs ?acc" by (simp add: Let_def)
  show ?case
  proof (cases "ecosystem r = e")
    case False
    then have same: "totals ?acc e = totals acc e" by (simp add: add_commits_other)
    with Cons.prems have ok: "(totals ?acc e = None \<and> a = 0) \<or> totals ?acc e = Some (Num a)"
      by simp
    from False have img: "e \<in> ecosystem ` set (r # rs) \<longleftrightarrow> e \<in> ecosystem ` set rs" by auto
    show ?thesis
      unfolding step img Cons.IH [OF ok] using False
      by (simp add: commits_of_ecosystem_Cons add_commits_other)
  next
    case True
    have val: "totals ?acc e = Some (Num (a + length (commits r)))"
      using Cons.prems True assms(1)
      by (auto simp: add_commits_ordinary_None add_commits_ordinary_Num)
    then have ok: "(totals ?acc e = None \<and> a + length (commits r) = 0) \<or>
        totals ?acc e = Some (Num (a + length (commits r)))" by simp
    from True have img: "e \<in> ecosystem ` set (r # rs)" by simp
    show ?thesis
    proof (cases "e \<in> ecosystem ` set rs")
      case True
      with \<open>ecosystem r = e\<close> show ?thesis
        unfolding step Cons.IH [OF ok] by (simp add: commits_of_ecosystem_Cons)
    next
      case False
      with \<open>ecosystem r = e\<close> val show ?thesis
        unfolding step Cons.IH [OF ok]
        by (simp add: commits_of_ecosystem_Cons commits_of_ecosystem_absent)
    qed
  qed
qed

lemma civil_new_year: "civil_from_days (1704103200000 div msPerDay) = (2024, 1, 1)"
  by (simp add: civil_from_days_def msPerDay_def cong: let_weak_cong)

lemma date_string_new_year: "date_string 1704103200000 = ''2024-01-01''"
  by (simp add: date_string_def civil_new_year year_string_def pad_def show_nat.simps)

text \<open>
  Claim C7, as amended. When every non-empty date of the input parses, \<^verbatim>\<open>summarizeData\<close>
  completes and writes both files. The daily summary holds, under each date, the number of
  commits whose date is non-empty and falls on that UTC calendar date (and no key for a date
  without such a commit): a commit with an absent or empty date is counted under no date.
  \<^verbatim>\<open>overallTotal\<close> counts every commit, dated or not, and so does the total of each
  ecosystem whose label is not the name of a property of \<^verbatim>\<open>Object.prototype\<close>.
\<close>

theorem summarizeData_counts:
  assumes "input_file files = Some (Collection jsonData)"
    and "dates_parse Date_parse (all_commits jsonData)"
  shows "\<exists>daily eco.
      summarizeData Date_parse files =
        (Complete, files\<lparr>daily_file := Some daily, eco_file := Some eco\<rparr>) \<and>
      (\<forall>k. daily k = (if commits_on Date_parse jsonData k = 0 then None
                       else Some (commits_on Date_parse jsonData k))) \<and>
      overallTotal eco = length (all_commits jsonData) \<and>
      (\<forall>e. e \<notin> set inherited_keys \<longrightarrow>
           totals eco e = (if e \<in> ecosystem ` set jsonData
                           then Some (Num (commits_of_ecosystem jsonData e)) else None))"
proof -
  from count_repos_closed [OF assms(2), of Map.empty]
  obtain daily where d: "count_repos Date_parse jsonData Map.empty = Inr daily"
    and dk: "\<And>k. daily k = tally None (commits_on Date_parse jsonData k)"
    by auto
  define eco where "eco = total_repos jsonData \<lparr>totals = Map.empty, overallTotal = 0\<rparr>"
  have run: "summarizeData Date_parse files =
      (Complete, files\<lparr>daily_file := Some daily, eco_file := Some eco\<rparr>)"
    using assms(1) d by (simp add: summarizeData_def eco_def)
  have days: "\<forall>k. daily k = (if commits_on Date_parse jsonData k = 0 then None
                       else Some (commits_on Date_parse jsonData k))"
    by (simp add: dk tally_def)
  have overall: "overallTotal eco = length (all_commits jsonData)"
    by (simp add: eco_def total_repos_overall)
  have labels: "\<forall>e. e \<notin> set inherited_keys \<longrightarrow>
           totals eco e = (if e \<in> ecosystem ` set jsonData
                           then Some (Num (commits_of_ecosystem jsonData e)) else None)"
  proof (intro allI impI)
    fix e assume e: "e \<notin> set inherited_keys"
    have "totals (total_repos jsonData \<lparr>totals = Map.empty, overallTotal = 0\<rparr>) e =
      (if e \<in> ecosystem ` set jsonData then Some (Num (0 + commits_of_ecosystem jsonData e))
       else totals \<lparr>totals = Map.empty, overallTotal = 0\<rparr> e)"
      by (rule total_repos_ordinary [OF e]) simp
    then show "totals eco e = (if e \<in> ecosystem ` set jsonData
                           then Some (Num (commits_of_ecosystem jsonData e)) else None)"
      by (simp add: eco_def)
  qed
  from run days overall labels show ?thesis by blast
qed

theorem summarizeData_counts_witness:
  "\<exists>daily eco.
      summarizeData example_parse (no_files\<lparr>input_file := Some (Collection [npm_history])\<rparr>) =
        (Complete, no_files\<lparr>input_file := Some (Collection [npm_history]),
                            daily_file := Some daily, eco_file := Some eco\<rparr>) \<and>
      daily ''2024-01-01'' = Some 1 \<and> daily ''2024-01-02'' = None \<and>
      overallTotal eco = 2 \<and> totals eco ''npm'' = Some (Num 2)"
proof -
  have parse: "dates_parse example_parse (all_commits [npm_history])"
    by (simp add: dates_parse_def all_commits_def npm_history_def commit_without_date_def
        commit_new_year_def example_parse_def)
  have d1: "commits_on example_parse [npm_history] ''2024-01-01'' = 1"
    by (simp add: commits_on_def all_commits_def npm_history_def commit_without_date_def
        commit_new_year_def example_parse_def utc_date_def date_string_new_year)
  have d2: "commits_on example_parse [npm_history] ''2024-01-02'' = 0"
    by (simp add: commits_on_def all_commits_def npm_history_def commit_without_date_def
        commit_new_year_def example_parse_def utc_date_def date_string_new_year)
  have n: "length (all_commits [npm_history]) = 2"
    by (simp add: all_commits_def npm_history_def)
  have e: "commits_of_ecosystem [npm_history] ''npm'' = 2" "''npm'' \<in> ecosystem ` set [npm_history]"
    by (simp_all add: commits_of_ecosystem_def all_commits_def npm_history_def)
  have k: "''npm'' \<notin> set inherited_keys"
    by (simp add: inherited_keys_def Object_prototype_functions_def)
  from summarizeData_counts [of "no_files\<lparr>input_file := Some (Collection [npm_history])\<rparr>"
      "[npm_history]" example_parse, OF _ parse]
  obtain daily eco where
    "summarizeData example_parse (no_files\<lparr>input_file := Some (Collection [npm_history])\<rparr>) =
        (Complete, no_files\<lparr>input_file := Some (Collection [npm_history]),
                            daily_file := Some daily, eco_file := Some eco\<rparr>)"
    and "\<forall>k. daily k = (if commits_on example_parse [npm_history] k = 0 then None
                       else Some (commits_on example_parse [npm_history] k))"
    and "overallTotal eco = length (all_commits [npm_history])"
    and "\<forall>e. e \<notin> set inherited_keys \<longrightarrow>
           totals eco e = (if e \<in> ecosystem ` set [npm_history]
                           then Some (Num (commits_of_ecosystem [npm_history] e)) else None)"
    by auto
  then show ?thesis
    using d1 d2 n e k by (intro exI [of _ daily] exI [of _ eco]) simp
qed

text \<open>
  The claim as stated fails: a commit with a present, valid date is not counted when another
  commit of the input has a date that does not parse, since no daily summary is written.
\<close>

theorem summarizeData_valid_date_not_counted:
  "date commit_new_year = Some ''2024-01-01T10:00:00Z'' \<and>
   example_parse ''2024-01-01T10:00:00Z'' = Some 1704103200000 \<and>
   commit_new_year \<in> set (commits mixed_history) \<and>
   summarizeData example_parse (no_files\<lparr>input_file := Some (Collection [mixed_history])\<rparr>) =
     (Thrown RangeError, no_files\<lparr>input_file := Some (Collection [mixed_history])\<rparr>) \<and>
   daily_file (no_files\<lparr>input_file := Some (Collection [mixed_history])\<rparr>) = None"
  by (simp add: summarizeData_def mixed_history_def commit_new_year_def commit_with_bad_date_def
      example_parse_def no_files_def date_key_def toISOString_def date_string_new_year split_js_def)

section \<open>Summarizer: ecosystem labels that name inherited properties\<close>

lemma show_nat_digit: "show_nat (Suc 0) = ''1''" "show_nat (Suc (Suc 0)) = ''2''"
  by (simp_all add: show_nat.simps)

text \<open>
  Claim C5. With the ecosystem label \<^verbatim>\<open>__proto__\<close> the lookup finds the inherited
  accessor, which is truthy, and the assignment of a string to it is ignored: the one commit
  of the input is in \<^verbatim>\<open>overallTotal\<close> and \<^verbatim>\<open>totals\<close> stays empty, so the values of
  \<^verbatim>\<open>totals\<close> add up to 0 while \<^verbatim>\<open>overallTotal\<close> and the number of commit records
  are 1.
\<close>

theorem summarizeData_proto_label:
  "summarizeData (\<lambda>d. None) (no_files\<lparr>input_file := Some (Collection [proto_history])\<rparr>) =
     (Complete,
      no_files\<lparr>input_file := Some (Collection [proto_history]),
               daily_file := Some Map.empty,
               eco_file := Some \<lparr>totals = Map.empty, overallTotal = 1\<rparr>\<rparr>)"
  by (simp add: summarizeData_def proto_history_def commit_without_date_def no_files_def
      add_commits_def obj_get_def obj_set_def)

text \<open>
  Claim C6. With the ecosystem label \<^verbatim>\<open>constructor\<close> the lookup finds the inherited
  function \<^verbatim>\<open>Object\<close>, and \<^verbatim>\<open>+=\<close> appends the digits of each commit count to its
  source text: the two orders of the same two repositories give different summaries.
\<close>

theorem summarizeData_constructor_order:
  "eco_file (snd (summarizeData (\<lambda>d. None)
       (no_files\<lparr>input_file := Some (Collection [constructor_one, constructor_two])\<rparr>))) =
     Some \<lparr>totals = [''constructor'' \<mapsto> Str ''function Object() { [native code] }12''],
           overallTotal = 3\<rparr> \<and>
   eco_file (snd (summarizeData (\<lambda>d. None)
       (no_files\<lparr>input_file := Some (Collection [constructor_two, constructor_one])\<rparr>))) =
     Some \<lparr>totals = [''constructor'' \<mapsto> Str ''function Object() { [native code] }21''],
           overallTotal = 3\<rparr>"
  by (simp add: summarizeData_def constructor_one_def constructor_two_def commit_without_date_def
      no_files_def add_commits_def obj_get_def obj_set_def Object_prototype_functions_def
      show_nat_digit)

section \<open>Ingestor: one iteration of the loop\<close>

lemma loop_body_cases:
  obtains
    (skip) "fullName r \<in> processedRepos s" "loop_body insts i r s = s"
  | (fail) "fullName r \<notin> processedRepos s"
      "select_octokit insts i (owner r) (repo r) = None"
      "loop_body insts i r s =
         s\<lparr>processedRepos := insert (fullName r) (processedRepos s),
           console := console s @ [Fetching (fullName r), Could_not_fetch (fullName r)]\<rparr>"
  | (ok) response where "fullName r \<notin> processedRepos s"
      "select_octokit insts i (owner r) (repo r) = Some response"
      "loop_body insts i r s =
         s\<lparr>allCommitsData := allCommitsData s @
             [\<lparr>repository = fullName r, ecosystem = ref_ecosystem r,
               commits = map project_commit response\<rparr>],
           processedRepos := insert (fullName r) (processedRepos s),
           newReposProcessed := Suc (newReposProcessed s),
           output_file := Some (Collection (allCommitsData s @
             [\<lparr>repository = fullName r, ecosystem = ref_ecosystem r,
               commits = map project_commit response\<rparr>])),
           console := console s @ [Fetching (fullName r)]\<rparr>"
proof (cases "fullName r \<in> processedRepos s")
  case True
  then show ?thesis by (intro skip) (simp_all add: loop_body_def)
next
  case False
  show ?thesis
  proof (cases "select_octokit insts i (owner r) (repo r)")
    case None
    with False show ?thesis
      by (intro fail) (simp_all add: loop_body_def fetchCommitsForRepo_def fullName_def)
  next
    case (Some response)
    with False show ?thesis
      by (intro ok [of response]) (simp_all add: loop_body_def fetchCommitsForRepo_def fullName_def Let_def)
  qed
qed

lemma ingest_loop_append:
  "ingest_loop insts i (xs @ ys) s = ingest_loop insts (i + length xs) ys (ingest_loop insts i xs s)"
  by (induction xs arbitrary: i s) simp_all

text \<open>The collection in memory only grows, and the file on disk follows it.\<close>

lemma loop_body_extends:
  "\<exists>new. allCommitsData (loop_body insts i r s) = allCommitsData s @ new"
  by (rule loop_body_cases [where r = r and s = s and insts = insts and i = i]) auto

lemma loop_body_synced:
  "saved (output_file s) = allCommitsData s \<Longrightarrow>
   saved (output_file (loop_body insts i r s)) = allCommitsData (loop_body insts i r s)"
  by (rule loop_body_cases [where r = r and s = s and insts = insts and i = i]) (auto simp: saved_def)

lemma loop_body_keys:
  assumes "distinct (map repository (allCommitsData s))"
    and "repository ` set (allCommitsData s) \<subseteq> processedRepos s"
  shows "distinct (map repository (allCommitsData (loop_body insts i r s))) \<and>
         repository ` set (allCommitsData (loop_body insts i r s)) \<subseteq>
           processedRepos (loop_body insts i r s)"
  by (rule loop_body_cases [where r = r and s = s and insts = insts and i = i])
    (use assms in auto)

lemma ingest_loop_extends:
  "\<exists>new. allCommitsData (ingest_loop insts i rs s) = allCommitsData s @ new"
proof (induction rs arbitrary: i s)
  case Nil
  then show ?case by simp
next
  case (Cons r rs)
  from loop_body_extends obtain n1 where
    "allCommitsData (loop_body insts i r s) = allCommitsData s @ n1" by blast
  moreover from Cons.IH obtain n2 where
    "allCommitsData (ingest_loop insts (Suc i) rs (loop_body insts i r s)) =
       allCommitsData (loop_body insts i r s) @ n2" by blast
  ultimately show ?case by simp
qed

lemma ingest_loop_synced:
  "saved (output_file s) = allCommitsData s \<Longrightarrow>
   saved (output_file (ingest_loop insts i rs s)) = allCommitsData (ingest_loop insts i rs s)"
  by (induction rs arbitrary: i s) (simp_all add: loop_body_synced)

lemma ingest_loop_keys:
  assumes "distinct (map repository (allCommitsData s))"
    and "repository ` set (allCommitsData s) \<subseteq> processedRepos s"
  shows "distinct (map repository (allCommitsData (ingest_loop insts i rs s))) \<and>
         repository ` set (allCommitsData (ingest_loop insts i rs s)) \<subseteq>
           processedRepos (ingest_loop insts i rs s)"
  using assms
proof (induction rs arbitrary: i s)
  case Nil
  then show ?case by simp
next
  case (Cons r rs)
  from loop_body_keys [OF Cons.prems, of insts i r]
  show ?case by (simp add: Cons.IH)
qed

text \<open>The state in which the loop starts.\<close>

lemma loop_start_state:
  assumes "loop_start env input f = Inr (tokens, s)"
  shows "allCommitsData s = saved f" and "processedRepos s = repository ` set (saved f)"
    and "output_file s = f" and "tokens \<noteq> []"
    and "\<forall>n. Fetching n \<notin> set (console s)"
  using assms
  by (auto simp: loop_start_def initial_state_def load_progress_def saved_def Let_def
      split: option.splits if_splits file_content.splits)

lemma loop_start_early:
  assumes "loop_start env input f = Inl s"
  shows "output_file s = f"
  using assms
  by (auto simp: loop_start_def initial_state_def Let_def split: option.splits if_splits)

text \<open>Evaluating the example runs.\<close>

lemma example_tokens: "parse_tokens ''t0k'' = [''t0k'']"
  by (simp add: parse_tokens_def split_js_def trim_def is_white_space_def)

lemma example_start:
  "loop_start (Some ''t0k'') input f =
     Inr ([''t0k''],
       (load_progress f ((initial_state f)\<lparr>console := [Starting, Loaded_tokens 1]\<rparr>))
         \<lparr>console := console (load_progress f ((initial_state f)\<lparr>console := [Starting, Loaded_tokens 1]\<rparr>)) @
            [Found_repositories (length input)]\<rparr>)"
  by (simp add: loop_start_def example_tokens Let_def initial_state_def)

lemmas example_run =
  main_def after_iterations_def example_start load_progress_def initial_state_def
  loop_body_def fetchCommitsForRepo_def select_octokit_def fullName_def
  ref_ab_def ref_cd_def history_ab_def history_cd_def offline_def only_cd_def
  project_commit_def saved_def Let_def

section \<open>Ingestor: running twice\<close>

lemma main_extends:
  "\<exists>new. output_file (main github env input (Some (Collection xs))) = Some (Collection (xs @ new)) \<and>
         (distinct (map repository xs) \<longrightarrow> distinct (map repository (xs @ new)))"
proof (cases "loop_start env input (Some (Collection xs))")
  case (Inl s)
  then have "output_file (main github env input (Some (Collection xs))) = Some (Collection (xs @ []))"
    using loop_start_early [OF Inl] by (simp add: main_def)
  then show ?thesis by (intro exI [of _ "[]"]) simp
next
  case (Inr p)
  then obtain tokens s where start: "loop_start env input (Some (Collection xs)) = Inr (tokens, s)"
    by (cases p) auto
  let ?s' = "ingest_loop (map github tokens) 0 input s"
  from loop_start_state [OF start]
  have mem: "allCommitsData s = xs" and proc: "processedRepos s = repository ` set xs"
    by (simp_all add: saved_def)
  from ingest_loop_extends obtain new where new: "allCommitsData ?s' = allCommitsData s @ new"
    by blast
  have out: "output_file (main github env input (Some (Collection xs))) = Some (Collection (xs @ new))"
    using start new mem by (simp add: main_def Let_def)
  have "distinct (map repository (xs @ new))" if "distinct (map repository xs)"
  proof -
    from that mem proc have "distinct (map repository (allCommitsData s))"
      and "repository ` set (allCommitsData s) \<subseteq> processedRepos s" by simp_all
    from ingest_loop_keys [OF this, of "map github tokens" 0 input] new mem
    show ?thesis by simp
  qed
  with out show ?thesis by blast
qed

text \<open>
  Claim C3. From a prior output collection whose repository keys are distinct, empty or not,
  a run leaves in the output file the prior entries, unchanged and in place, followed by the
  new ones. A second run against the same input, whatever the service answers then, again
  only appends, and the collection it leaves has no repository key twice.
\<close>

theorem ingest_twice_no_duplicates:
  assumes "distinct (map repository prior)"
  shows "\<exists>new1 new2.
      output_file (main github1 env1 input (Some (Collection prior))) =
        Some (Collection (prior @ new1)) \<and>
      output_file (main github2 env2 input
          (output_file (main github1 env1 input (Some (Collection prior))))) =
        Some (Collection (prior @ new1 @ new2)) \<and>
      distinct (map repository (prior @ new1 @ new2))"
proof -
  from main_extends [of github1 env1 input prior] assms
  obtain new1 where
    one: "output_file (main github1 env1 input (Some (Collection prior))) = Some (Collection (prior @ new1))"
    and d1: "distinct (map repository (prior @ new1))"
    by blast
  from main_extends [of github2 env2 input "prior @ new1"] d1
  obtain new2 where
    two: "output_file (main github2 env2 input (Some (Collection (prior @ new1)))) =
        Some (Collection ((prior @ new1) @ new2))"
    and d2: "distinct (map repository ((prior @ new1) @ new2))"
    by blast
  from one two d2 show ?thesis
    by (intro exI [of _ new1] exI [of _ new2]) simp
qed

theorem ingest_twice_no_duplicates_witness:
  "output_file (main only_cd (Some ''t0k'') [ref_ab, ref_cd] (Some (Collection [history_ab]))) =
     Some (Collection [history_ab, history_cd]) \<and>
   (\<exists>new1 new2.
      output_file (main only_cd (Some ''t0k'') [ref_ab, ref_cd] (Some (Collection [history_ab]))) =
        Some (Collection ([history_ab] @ new1)) \<and>
      output_file (main only_cd (Some ''t0k'') [ref_ab, ref_cd]
          (output_file (main only_cd (Some ''t0k'') [ref_ab, ref_cd] (Some (Collection [history_ab]))))) =
        Some (Collection ([history_ab] @ new1 @ new2)) \<and>
      distinct (map repository ([history_ab] @ new1 @ new2)))"
proof -
  have "distinct (map repository [history_ab])" by simp
  from ingest_twice_no_duplicates [OF this]
  have "\<exists>new1 new2.
      output_file (main only_cd (Some ''t0k'') [ref_ab, ref_cd] (Some (Collection [history_ab]))) =
        Some (Collection ([history_ab] @ new1)) \<and>
      output_file (main only_cd (Some ''t0k'') [ref_ab, ref_cd]
          (output_file (main only_cd (Some ''t0k'') [ref_ab, ref_cd] (Some (Collection [history_ab]))))) =
        Some (Collection ([history_ab] @ new1 @ new2)) \<and>
      distinct (map repository ([history_ab] @ new1 @ new2))" .
  moreover have "output_file (main only_cd (Some ''t0k'') [ref_ab, ref_cd] (Some (Collection [history_ab]))) =
     Some (Collection [history_ab, history_cd])"
    by (simp add: example_run)
  ultimately show ?thesis by blast
qed

text \<open>
  The hypothesis of distinct keys holds of every file the ingestor leaves when it starts with
  no output file, or with one it cannot parse.
\<close>

lemma main_keys_distinct:
  assumes "distinct (map repository (saved f))"
  shows "distinct (map repository (saved (output_file (main github env input f))))"
proof (cases "loop_start env input f")
  case (Inl s)
  then show ?thesis
    using loop_start_early [OF Inl] assms by (simp add: main_def)
next
  case (Inr p)
  then obtain tokens s where start: "loop_start env input f = Inr (tokens, s)"
    by (cases p) auto
  from loop_start_state [OF start] assms
  have "distinct (map repository (allCommitsData s))"
    and "repository ` set (allCommitsData s) \<subseteq> processedRepos s" by simp_all
  from ingest_loop_keys [OF this, where insts = "map github tokens" and i = 0 and rs = input]
  show ?thesis using start by (simp add: main_def Let_def saved_def)
qed

lemma main_from_scratch_keys_distinct:
  "distinct (map repository (saved (output_file (main github env input None))))"
  "distinct (map repository (saved (output_file (main github env input (Some Unparsable)))))"
  by (rule main_keys_distinct, simp add: saved_def)+

section \<open>Ingestor: the output file during a run\<close>

lemma after_iterations_Inl:
  "loop_start env input f = Inl s \<Longrightarrow> after_iterations github env input f k = s"
  by (simp add: after_iterations_def)

lemma after_iterations_Inr:
  "loop_start env input f = Inr (tokens, s) \<Longrightarrow>
   after_iterations github env input f k = ingest_loop (map github tokens) 0 (take k input) s"
  by (simp add: after_iterations_def)

lemma after_iterations_synced:
  "saved (output_file (after_iterations github env input f k)) =
     (case loop_start env input f of
        Inl s \<Rightarrow> saved f
      | Inr p \<Rightarrow> allCommitsData (after_iterations github env input f k))"
proof (cases "loop_start env input f")
  case (Inl s)
  then show ?thesis using loop_start_early [OF Inl] by (simp add: after_iterations_Inl)
next
  case (Inr p)
  then obtain tokens s where start: "loop_start env input f = Inr (tokens, s)" by (cases p) auto
  from loop_start_state [OF start] have "saved (output_file s) = allCommitsData s" by simp
  then show ?thesis
    using start by (simp add: after_iterations_Inr ingest_loop_synced)
qed

lemma after_iterations_mono:
  assumes "j \<le> k"
  shows "\<exists>new. saved (output_file (after_iterations github env input f k)) =
               saved (output_file (after_iterations github env input f j)) @ new"
proof (cases "loop_start env input f")
  case (Inl s)
  then show ?thesis by (simp add: after_iterations_Inl)
next
  case (Inr p)
  then obtain tokens s where start: "loop_start env input f = Inr (tokens, s)" by (cases p) auto
  have "take k input = take j input @ drop j (take k input)"
    using assms by (metis append_take_drop_id min.absorb1 take_take)
  then have "after_iterations github env input f k =
      ingest_loop (map github tokens) (0 + length (take j input)) (drop j (take k input))
        (after_iterations github env input f j)"
    using start by (metis after_iterations_Inr ingest_loop_append)
  with ingest_loop_extends obtain new where
    "allCommitsData (after_iterations github env input f k) =
       allCommitsData (after_iterations github env input f j) @ new" by metis
  then show ?thesis using start by (simp add: after_iterations_synced)
qed

lemma after_iterations_Suc:
  assumes "loop_start env input f = Inr (tokens, s)" and "k < length input"
  shows "after_iterations github env input f (Suc k) =
     loop_body (map github tokens) k (input ! k) (after_iterations github env input f k)"
proof -
  have "take (Suc k) input = take k input @ [input ! k]"
    using assms(2) by (rule take_Suc_conv_app_nth)
  moreover have "length (take k input) = k" using assms(2) by simp
  ultimately show ?thesis
    using assms(1) by (simp add: after_iterations_Inr ingest_loop_append)
qed

lemma main_after_all:
  "saved (output_file (main github env input f)) =
   saved (output_file (after_iterations github env input f (length input)))"
proof (cases "loop_start env input f")
  case (Inl s)
  then show ?thesis by (simp add: main_def after_iterations_Inl)
next
  case (Inr p)
  then obtain tokens s where start: "loop_start env input f = Inr (tokens, s)" by (cases p) auto
  then show ?thesis
    using after_iterations_synced [of github env input f "length input"]
    by (simp add: main_def Let_def saved_def after_iterations_Inr)
qed

text \<open>Between writes the entries readable from the file only grow.\<close>

lemma after_iterations_grows:
  "output_file (after_iterations github env input f 0) = f \<and>
   (j \<le> k \<longrightarrow>
      (\<exists>new. saved (output_file (after_iterations github env input f k)) =
              saved (output_file (after_iterations github env input f j)) @ new)) \<and>
   (\<exists>new. saved (output_file (main github env input f)) =
           saved (output_file (after_iterations github env input f k)) @ new) \<and>
   (\<forall>tokens s response.
      loop_start env input f = Inr (tokens, s) \<longrightarrow> k < length input \<longrightarrow>
      fullName (input ! k) \<notin> processedRepos (after_iterations github env input f k) \<longrightarrow>
      select_octokit (map github tokens) k (owner (input ! k)) (repo (input ! k)) = Some response \<longrightarrow>
      output_file (after_iterations github env input f (Suc k)) =
        Some (Collection (saved (output_file (after_iterations github env input f k)) @
          [\<lparr>repository = fullName (input ! k), ecosystem = ref_ecosystem (input ! k),
            commits = map project_commit response\<rparr>])))"
proof (intro conjI impI allI)
  show "output_file (after_iterations github env input f 0) = f"
  proof (cases "loop_start env input f")
    case (Inl s)
    then show ?thesis using loop_start_early [OF Inl] by (simp add: after_iterations_Inl)
  next
    case (Inr p)
    then obtain tokens s where start: "loop_start env input f = Inr (tokens, s)" by (cases p) auto
    then show ?thesis using loop_start_state(3) [OF start] by (simp add: after_iterations_Inr)
  qed
next
  assume "j \<le> k"
  then show "\<exists>new. saved (output_file (after_iterations github env input f k)) =
              saved (output_file (after_iterations github env input f j)) @ new"
    by (rule after_iterations_mono)
next
  show "\<exists>new. saved (output_file (main github env input f)) =
           saved (output_file (after_iterations github env input f k)) @ new"
  proof (cases "k \<le> length input")
    case True
    then show ?thesis unfolding main_after_all by (rule after_iterations_mono)
  next
    case False
    then have "take k input = take (length input) input" by simp
    then have "after_iterations github env input f k =
        after_iterations github env input f (length input)"
      unfolding after_iterations_def by (simp only:)
    then show ?thesis by (simp add: main_after_all)
  qed
next
  fix tokens s response
  assume start: "loop_start env input f = Inr (tokens, s)" and k: "k < length input"
    and fresh: "fullName (input ! k) \<notin> processedRepos (after_iterations github env input f k)"
    and ok: "select_octokit (map github tokens) k (owner (input ! k)) (repo (input ! k)) = Some response"
  have sync: "saved (output_file (after_iterations github env input f k)) =
      allCommitsData (after_iterations github env input f k)"
    using start by (simp add: after_iterations_synced)
  show "output_file (after_iterations github env input f (Suc k)) =
        Some (Collection (saved (output_file (after_iterations github env input f k)) @
          [\<lparr>repository = fullName (input ! k), ecosystem = ref_ecosystem (input ! k),
            commits = map project_commit response\<rparr>]))"
    unfolding after_iterations_Suc [OF start k] sync
    by (rule loop_body_cases [where r = "input ! k" and s = "after_iterations github env input f k"
          and insts = "map github tokens" and i = k])
      (use fresh ok in auto)
qed


lemma loop_body_not_torn:
  "output_file s \<noteq> Some Unparsable \<Longrightarrow> output_file (loop_body insts i r s) \<noteq> Some Unparsable"
  by (rule loop_body_cases [where r = r and s = s and insts = insts and i = i]) auto

lemma ingest_loop_not_torn:
  "output_file s \<noteq> Some Unparsable \<Longrightarrow> output_file (ingest_loop insts i rs s) \<noteq> Some Unparsable"
  by (induction rs arbitrary: i s) (simp_all add: loop_body_not_torn)

lemma after_iterations_not_torn:
  assumes "f \<noteq> Some Unparsable"
  shows "output_file (after_iterations github env input f k) \<noteq> Some Unparsable"
proof (cases "loop_start env input f")
  case (Inl s)
  then show ?thesis using loop_start_early [OF Inl] assms by (simp add: after_iterations_Inl)
next
  case (Inr p)
  then obtain tokens s where start: "loop_start env input f = Inr (tokens, s)" by (cases p) auto
  from loop_start_state(3) [OF start] assms have "output_file s \<noteq> Some Unparsable" by simp
  then show ?thesis
    unfolding after_iterations_Inr [OF start] by (rule ingest_loop_not_torn)
qed

lemma main_not_torn:
  assumes "f \<noteq> Some Unparsable"
  shows "output_file (main github env input f) \<noteq> Some Unparsable"
proof (cases "loop_start env input f")
  case (Inl s)
  then show ?thesis using loop_start_early [OF Inl] assms by (simp add: main_def)
next
  case (Inr p)
  then show ?thesis by (cases p) (simp add: main_def Let_def)
qed

lemma output_file_at_outside:
  "output_file_at github env input f (Outside_write k) =
   output_file (after_iterations github env input f k)"
  by (simp add: output_file_at_def after_iterations_def split: sum.splits)

text \<open>
  Claim C4, as amended. An iteration whose fetch succeeds writes at once the whole collection,
  which is what the file held plus the new entry. When the run finds no output file or one
  that parses, the file parses at every point outside a write, also when the run is complete;
  it is as the run found it before the first iteration; and the entries it holds after \<open>k\<close>
  iterations extend those it held after any \<open>j \<le> k\<close> iterations and are kept by the
  complete run: a run cut off outside a write loses no saved entry. The file fails to parse
  only when the run is cut off inside a write.
\<close>

theorem output_file_outside_writes:
  assumes "f \<noteq> Some Unparsable"
  shows
  "output_file_at github env input f (Outside_write 0) = f \<and>
   output_file_at github env input f (Outside_write k) \<noteq> Some Unparsable \<and>
   output_file (main github env input f) \<noteq> Some Unparsable \<and>
   (j \<le> k \<longrightarrow>
      (\<exists>new. saved (output_file_at github env input f (Outside_write k)) =
              saved (output_file_at github env input f (Outside_write j)) @ new)) \<and>
   (\<exists>new. saved (output_file (main github env input f)) =
           saved (output_file_at github env input f (Outside_write k)) @ new) \<and>
   (\<forall>tokens s response.
      loop_start env input f = Inr (tokens, s) \<longrightarrow> k < length input \<longrightarrow>
      fullName (input ! k) \<notin> processedRepos (after_iterations github env input f k) \<longrightarrow>
      select_octokit (map github tokens) k (owner (input ! k)) (repo (input ! k)) = Some response \<longrightarrow>
      output_file_at github env input f (Outside_write (Suc k)) =
        Some (Collection (saved (output_file_at github env input f (Outside_write k)) @
          [\<lparr>repository = fullName (input ! k), ecosystem = ref_ecosystem (input ! k),
            commits = map project_commit response\<rparr>]))) \<and>
   (\<forall>p. output_file_at github env input f p = Some Unparsable \<longrightarrow>
        (\<exists>i. p = In_write i) \<or> p = In_final_write)"
proof -
  note grows = after_iterations_grows [of github env input f j k]
  have torn_only_in_write: "(\<exists>i. p = In_write i) \<or> p = In_final_write"
    if "output_file_at github env input f p = Some Unparsable" for p
  proof (cases p)
    case (Outside_write n)
    with that after_iterations_not_torn [OF assms, of github env input n]
    show ?thesis by (simp add: output_file_at_outside)
  qed simp_all
  from grows after_iterations_not_torn [OF assms, of github env input k]
    main_not_torn [OF assms, of github env input] torn_only_in_write
  show ?thesis
    unfolding output_file_at_outside by blast
qed

theorem output_file_outside_writes_witness:
  "output_file_at only_cd (Some ''t0k'') [ref_ab, ref_cd] (Some (Collection [history_ab]))
     (Outside_write 0) = Some (Collection [history_ab]) \<and>
   output_file_at only_cd (Some ''t0k'') [ref_ab, ref_cd] (Some (Collection [history_ab]))
     (Outside_write 1) \<noteq> Some Unparsable \<and>
   (\<exists>new. saved (output_file_at only_cd (Some ''t0k'') [ref_ab, ref_cd]
                    (Some (Collection [history_ab])) (Outside_write 1)) =
           saved (output_file_at only_cd (Some ''t0k'') [ref_ab, ref_cd]
                    (Some (Collection [history_ab])) (Outside_write 0)) @ new) \<and>
   output_file_at only_cd (Some ''t0k'') [ref_ab, ref_cd] (Some (Collection [history_ab]))
     (Outside_write 2) =
     Some (Collection (saved (output_file_at only_cd (Some ''t0k'') [ref_ab, ref_cd]
                    (Some (Collection [history_ab])) (Outside_write 1)) @ [history_cd]))"
proof -
  let ?f = "Some (Collection [history_ab])"
  have parses: "?f \<noteq> Some Unparsable" by simp
  obtain s where start: "loop_start (Some ''t0k'') [ref_ab, ref_cd] ?f = Inr ([''t0k''], s)"
    by (simp add: example_start)
  have k: "1 < length [ref_ab, ref_cd]" by simp
  have fresh: "fullName ([ref_ab, ref_cd] ! 1) \<notin>
      processedRepos (after_iterations only_cd (Some ''t0k'') [ref_ab, ref_cd] ?f 1)"
    by (simp add: example_run)
  have ok: "select_octokit (map only_cd [''t0k'']) 1 (owner ([ref_ab, ref_cd] ! 1))
      (repo ([ref_ab, ref_cd] ! 1)) = Some []"
    by (simp add: example_run)
  have entry: "\<lparr>repository = fullName ([ref_ab, ref_cd] ! 1),
      ecosystem = ref_ecosystem ([ref_ab, ref_cd] ! 1), commits = map project_commit []\<rparr> = history_cd"
    by (simp add: fullName_def ref_cd_def history_cd_def)
  note grows = output_file_outside_writes [OF parses, of only_cd "Some ''t0k''" "[ref_ab, ref_cd]" 1 0]
  from grows have first: "output_file_at only_cd (Some ''t0k'') [ref_ab, ref_cd] ?f (Outside_write 0) = ?f"
    by blast
  from grows have whole: "output_file_at only_cd (Some ''t0k'') [ref_ab, ref_cd] ?f (Outside_write 1) \<noteq>
      Some Unparsable"
    by blast
  have le: "(0::nat) \<le> 1" by simp
  from grows le have mono: "\<exists>new. saved (output_file_at only_cd (Some ''t0k'')
                    [ref_ab, ref_cd] ?f (Outside_write 1)) =
           saved (output_file_at only_cd (Some ''t0k'') [ref_ab, ref_cd] ?f (Outside_write 0)) @ new"
    by blast
  from grows start k fresh ok
  have "output_file_at only_cd (Some ''t0k'') [ref_ab, ref_cd] ?f (Outside_write (Suc 1)) =
     Some (Collection (saved (output_file_at only_cd (Some ''t0k'') [ref_ab, ref_cd] ?f (Outside_write 1)) @
       [\<lparr>repository = fullName ([ref_ab, ref_cd] ! 1),
         ecosystem = ref_ecosystem ([ref_ab, ref_cd] ! 1), commits = map project_commit []\<rparr>]))"
    by blast
  moreover have "Suc 1 = 2" by simp
  ultimately have written: "output_file_at only_cd (Some ''t0k'') [ref_ab, ref_cd] ?f (Outside_write 2) =
     Some (Collection (saved (output_file_at only_cd (Some ''t0k'') [ref_ab, ref_cd] ?f (Outside_write 1)) @
       [history_cd]))"
    by (simp only: entry)
  from first whole mono written show ?thesis by blast
qed

text \<open>
  The claim as stated fails: the file holds the entry of a/b; the run is cut off inside the
  write that follows the fetch of c/d, which leaves a file that does not parse; the next run
  starts from an empty collection and leaves the entry of c/d alone in the file.
\<close>

theorem crash_in_write_loses_saved_entries:
  "saved (Some (Collection [history_ab])) = [history_ab] \<and>
   output_file_at only_cd (Some ''t0k'') [ref_ab, ref_cd] (Some (Collection [history_ab]))
     (In_write 1) = Some Unparsable \<and>
   output_file (main only_cd (Some ''t0k'') [ref_ab, ref_cd] (Some Unparsable)) =
     Some (Collection [history_cd])"
  by (simp add: output_file_at_def iteration_writes_def torn_file_def example_run)

text \<open>A run that finds a file it cannot parse starts with nothing in memory.\<close>

lemma start_from_torn_file:
  assumes "loop_start env input (Some Unparsable) = Inr (tokens, s)"
  shows "allCommitsData s = []" and "processedRepos s = {}"
  using loop_start_state(1,2) [OF assms] by (simp_all add: saved_def)

section \<open>Ingestor: a fetch that fails\<close>

lemma loop_body_processed_mono: "processedRepos s \<subseteq> processedRepos (loop_body insts i r s)"
  by (rule loop_body_cases [where r = r and s = s and insts = insts and i = i]) auto

lemma loop_body_marks: "fullName r \<in> processedRepos (loop_body insts i r s)"
  by (rule loop_body_cases [where r = r and s = s and insts = insts and i = i]) auto

lemma loop_body_console_mono: "set (console s) \<subseteq> set (console (loop_body insts i r s))"
  by (rule loop_body_cases [where r = r and s = s and insts = insts and i = i]) auto

lemma ingest_loop_console_mono: "set (console s) \<subseteq> set (console (ingest_loop insts i rs s))"
proof (induction rs arbitrary: i s)
  case Nil
  then show ?case by simp
next
  case (Cons r rs)
  from loop_body_console_mono [where s = s and insts = insts and i = i and r = r]
    Cons.IH [where i = "Suc i" and s = "loop_body insts i r s"]
  show ?case by auto
qed

text \<open>Once a repository is in the processed set, the run neither fetches it nor adds an entry for it.\<close>

lemma loop_body_processed_fixed:
  assumes "n \<in> processedRepos s"
  shows "count_list (console (loop_body insts i r s)) (Fetching n) = count_list (console s) (Fetching n)"
    and "n \<in> repository ` set (allCommitsData (loop_body insts i r s)) \<longleftrightarrow>
         n \<in> repository ` set (allCommitsData s)"
  by (rule loop_body_cases [where r = r and s = s and insts = insts and i = i]; use assms in auto)+

lemma ingest_loop_processed_fixed:
  assumes "n \<in> processedRepos s"
  shows "count_list (console (ingest_loop insts i rs s)) (Fetching n) = count_list (console s) (Fetching n) \<and>
         (n \<in> repository ` set (allCommitsData (ingest_loop insts i rs s)) \<longleftrightarrow>
          n \<in> repository ` set (allCommitsData s))"
  using assms
proof (induction rs arbitrary: i s)
  case Nil
  then show ?case by simp
next
  case (Cons r rs)
  from Cons.prems loop_body_processed_mono [of s insts i r]
  have "n \<in> processedRepos (loop_body insts i r s)" by blast
  from Cons.IH [OF this, where i = "Suc i"]
    loop_body_processed_fixed [OF Cons.prems, where insts = insts and i = i and r = r]
  show ?case by simp
qed

text \<open>Whatever was fetched, and whatever has an entry, is in the processed set.\<close>

lemma loop_body_accounted:
  assumes "\<forall>n. Fetching n \<in> set (console s) \<longrightarrow> n \<in> processedRepos s"
    and "repository ` set (allCommitsData s) \<subseteq> processedRepos s"
  shows "(\<forall>n. Fetching n \<in> set (console (loop_body insts i r s)) \<longrightarrow>
            n \<in> processedRepos (loop_body insts i r s)) \<and>
         repository ` set (allCommitsData (loop_body insts i r s)) \<subseteq>
           processedRepos (loop_body insts i r s)"
  by (rule loop_body_cases [where r = r and s = s and insts = insts and i = i])
    (use assms in auto)

lemma ingest_loop_accounted:
  assumes "\<forall>n. Fetching n \<in> set (console s) \<longrightarrow> n \<in> processedRepos s"
    and "repository ` set (allCommitsData s) \<subseteq> processedRepos s"
  shows "(\<forall>n. Fetching n \<in> set (console (ingest_loop insts i rs s)) \<longrightarrow>
            n \<in> processedRepos (ingest_loop insts i rs s)) \<and>
         repository ` set (allCommitsData (ingest_loop insts i rs s)) \<subseteq>
           processedRepos (ingest_loop insts i rs s)"
  using assms
proof (induction rs arbitrary: i s)
  case Nil
  then show ?case by simp
next
  case (Cons r rs)
  from loop_body_accounted [OF Cons.prems, where insts = insts and i = i and r = r]
  have "\<forall>n. Fetching n \<in> set (console (loop_body insts i r s)) \<longrightarrow>
            n \<in> processedRepos (loop_body insts i r s)"
    and "repository ` set (allCommitsData (loop_body insts i r s)) \<subseteq>
           processedRepos (loop_body insts i r s)"
    by blast+
  from Cons.IH [OF this, where i = "Suc i"] show ?case by simp
qed

text \<open>A repository of the list that is not in the processed set gets fetched.\<close>

lemma ingest_loop_fetches:
  assumes "r \<in> set rs" and "fullName r \<notin> processedRepos s"
  shows "Fetching (fullName r) \<in> set (console (ingest_loop insts i rs s))"
  using assms
proof (induction rs arbitrary: i s)
  case Nil
  then show ?case by simp
next
  case (Cons x rs)
  show ?case
  proof (cases "fullName x = fullName r")
    case True
    have "Fetching (fullName r) \<in> set (console (loop_body insts i x s))"
      by (rule loop_body_cases [where r = x and s = s and insts = insts and i = i])
        (use True Cons.prems(2) in auto)
    with ingest_loop_console_mono [where s = "loop_body insts i x s" and insts = insts
        and i = "Suc i" and rs = rs]
    show ?thesis by auto
  next
    case False
    with Cons.prems(1) have in_rest: "r \<in> set rs" by auto
    have "fullName r \<notin> processedRepos (loop_body insts i x s)"
      by (rule loop_body_cases [where r = x and s = s and insts = insts and i = i])
        (use False Cons.prems(2) in auto)
    from Cons.IH [OF in_rest this, where i = "Suc i"] show ?thesis by simp
  qed
qed

lemma after_iterations_accounted:
  assumes "loop_start env input f = Inr (tokens, s)"
  shows "(\<forall>n. Fetching n \<in> set (console (after_iterations github env input f k)) \<longrightarrow>
            n \<in> processedRepos (after_iterations github env input f k)) \<and>
         repository ` set (allCommitsData (after_iterations github env input f k)) \<subseteq>
           processedRepos (after_iterations github env input f k)"
  unfolding after_iterations_Inr [OF assms]
  by (rule ingest_loop_accounted) (use loop_start_state [OF assms] in simp_all)

lemma main_after:
  assumes "loop_start env input f = Inr (tokens, s)" and "k \<le> length input"
  shows "main github env input f =
     (let s' = ingest_loop (map github tokens) k (drop k input) (after_iterations github env input f k)
      in s'\<lparr>output_file := Some (Collection (allCommitsData s')),
            console := console s' @ [Processed_new (newReposProcessed s'), Success]\<rparr>)"
proof -
  have "ingest_loop (map github tokens) 0 (take k input @ drop k input) s =
     ingest_loop (map github tokens) (0 + length (take k input)) (drop k input)
       (ingest_loop (map github tokens) 0 (take k input) s)"
    by (rule ingest_loop_append)
  moreover have "length (take k input) = k" using assms(2) by simp
  ultimately have "ingest_loop (map github tokens) 0 input s =
     ingest_loop (map github tokens) k (drop k input) (after_iterations github env input f k)"
    using assms(1) by (simp add: after_iterations_Inr)
  then show ?thesis using assms(1) by (simp add: main_def)
qed

text \<open>
  Claim C2, as amended. When the fetch of the repository at index \<open>k\<close> fails, the iteration
  adds no entry and does not write the file, and the repository joins the processed set. The
  loop goes on with the rest of the list from that state, and the whole run fetches the
  repository exactly once and leaves no entry for it in the output file. The processed set is
  rebuilt from the output file at the next start, so any later run whose input has the
  repository fetches it again.
\<close>

theorem failed_fetch_skipped_this_run_only:
  assumes start: "loop_start env input f = Inr (tokens, s)"
    and k: "k < length input"
    and fresh: "fullName (input ! k) \<notin> processedRepos (after_iterations github env input f k)"
    and fails: "select_octokit (map github tokens) k (owner (input ! k)) (repo (input ! k)) = None"
  shows "allCommitsData (after_iterations github env input f (Suc k)) =
           allCommitsData (after_iterations github env input f k) \<and>
         output_file (after_iterations github env input f (Suc k)) =
           output_file (after_iterations github env input f k) \<and>
         fullName (input ! k) \<in> processedRepos (after_iterations github env input f (Suc k)) \<and>
         count_list (console (main github env input f)) (Fetching (fullName (input ! k))) = 1 \<and>
         fullName (input ! k) \<notin> repository ` set (saved (output_file (main github env input f))) \<and>
         main github env input f =
           (let s' = ingest_loop (map github tokens) (Suc k) (drop (Suc k) input)
                       (after_iterations github env input f (Suc k))
            in s'\<lparr>output_file := Some (Collection (allCommitsData s')),
                  console := console s' @ [Processed_new (newReposProcessed s'), Success]\<rparr>) \<and>
         (\<forall>github' env' input' tokens' s'.
            loop_start env' input' (output_file (main github env input f)) = Inr (tokens', s') \<longrightarrow>
            input ! k \<in> set input' \<longrightarrow>
            Fetching (fullName (input ! k)) \<in>
              set (console (main github' env' input' (output_file (main github env input f)))))"
proof -
  let ?n = "fullName (input ! k)"
  let ?sk = "after_iterations github env input f k"
  let ?sk1 = "after_iterations github env input f (Suc k)"
  let ?end = "ingest_loop (map github tokens) (Suc k) (drop (Suc k) input) ?sk1"
  have step: "?sk1 = ?sk\<lparr>processedRepos := insert ?n (processedRepos ?sk),
      console := console ?sk @ [Fetching ?n, Could_not_fetch ?n]\<rparr>"
    unfolding after_iterations_Suc [OF start k]
    by (rule loop_body_cases [where r = "input ! k" and s = ?sk
          and insts = "map github tokens" and i = k])
      (use fresh fails in auto)
  have unchanged: "allCommitsData ?sk1 = allCommitsData ?sk" "output_file ?sk1 = output_file ?sk"
    and marked: "?n \<in> processedRepos ?sk1"
    by (simp_all add: step)
  from after_iterations_accounted [OF start, where github = github and k = k] fresh
  have not_logged: "Fetching ?n \<notin> set (console ?sk)"
    and no_entry: "?n \<notin> repository ` set (allCommitsData ?sk)"
    by blast+
  then have once: "count_list (console ?sk1) (Fetching ?n) = 1"
    by (simp add: step count_list_0_iff)
  from k have "Suc k \<le> length input" by simp
  from main_after [OF start this, where github = github]
  have run: "main github env input f =
      (let s' = ?end
       in s'\<lparr>output_file := Some (Collection (allCommitsData s')),
             console := console s' @ [Processed_new (newReposProcessed s'), Success]\<rparr>)" .
  from ingest_loop_processed_fixed [OF marked, where insts = "map github tokens"
      and i = "Suc k" and rs = "drop (Suc k) input"]
  have fixed: "count_list (console ?end) (Fetching ?n) = count_list (console ?sk1) (Fetching ?n)"
    "?n \<in> repository ` set (allCommitsData ?end) \<longleftrightarrow> ?n \<in> repository ` set (allCommitsData ?sk1)"
    by blast+
  have count: "count_list (console (main github env input f)) (Fetching ?n) = 1"
    using fixed(1) once by (simp add: run Let_def)
  have absent: "?n \<notin> repository ` set (saved (output_file (main github env input f)))"
    using fixed(2) no_entry unchanged(1) by (simp add: run Let_def saved_def)
  have later: "Fetching ?n \<in> set (console (main github' env' input' (output_file (main github env input f))))"
    if start': "loop_start env' input' (output_file (main github env input f)) = Inr (tokens', s')"
      and mem: "input ! k \<in> set input'"
    for github' env' input' tokens' s'
  proof -
    from loop_start_state(2) [OF start'] absent have "?n \<notin> processedRepos s'" by simp
    from ingest_loop_fetches [OF mem this, where insts = "map github' tokens'" and i = 0]
    show ?thesis using start' by (simp add: main_def Let_def)
  qed
  from unchanged marked count absent run later show ?thesis by blast
qed

theorem failed_fetch_skipped_this_run_only_witness:
  "count_list (console (main only_cd (Some ''t0k'') [ref_ab, ref_cd] None)) (Fetching ''a/b'') = 1 \<and>
   ''a/b'' \<notin> repository ` set (saved (output_file (main only_cd (Some ''t0k'') [ref_ab, ref_cd] None))) \<and>
   Fetching ''a/b'' \<in> set (console (main offline (Some ''t0k'') [ref_ab]
       (output_file (main only_cd (Some ''t0k'') [ref_ab, ref_cd] None))))"
proof -
  obtain s where start: "loop_start (Some ''t0k'') [ref_ab, ref_cd] None = Inr ([''t0k''], s)"
    by (simp add: example_start)
  have k: "0 < length [ref_ab, ref_cd]" by simp
  have fresh: "fullName ([ref_ab, ref_cd] ! 0) \<notin>
      processedRepos (after_iterations only_cd (Some ''t0k'') [ref_ab, ref_cd] None 0)"
    by (simp add: example_run)
  have fails: "select_octokit (map only_cd [''t0k'']) 0 (owner ([ref_ab, ref_cd] ! 0))
      (repo ([ref_ab, ref_cd] ! 0)) = None"
    by (simp add: example_run)
  obtain s' where start': "loop_start (Some ''t0k'') [ref_ab]
      (output_file (main only_cd (Some ''t0k'') [ref_ab, ref_cd] None)) = Inr ([''t0k''], s')"
    by (simp add: example_start)
  have name: "fullName ([ref_ab, ref_cd] ! 0) = ''a/b''" by (simp add: fullName_def ref_ab_def)
  from failed_fetch_skipped_this_run_only [OF start k fresh fails] start'
  show ?thesis unfolding name by auto
qed

text \<open>
  The claim as stated fails: after a run in which the fetch of a/b failed, the next run, from
  the output file the first one left, fetches a/b again.
\<close>

theorem failed_fetch_retried_next_run:
  "Could_not_fetch ''a/b'' \<in> set (console (main offline (Some ''t0k'') [ref_ab] None)) \<and>
   output_file (main offline (Some ''t0k'') [ref_ab] None) = Some (Collection []) \<and>
   count_list (console (main offline (Some ''t0k'') [ref_ab] (Some (Collection []))))
     (Fetching ''a/b'') = 1"
  by (simp add: example_run)

section \<open>Cleaning the repository URL: paths the pattern handles as meant\<close>

text \<open>
  For a path of two segments on \<^verbatim>\<open>github.com\<close>, \<^verbatim>\<open>cleanRepoUrl\<close> returns the two
  segments when the pattern does not match the end of the path, and the two segments without
  the suffix when the path ends in \<^verbatim>\<open>.git\<close>.
\<close>

lemma split_from_absent: "c \<notin> set s \<Longrightarrow> split_from [c] cur s = [cur @ s]"
  by (induction s arbitrary: cur) auto

lemma split_js_two_segments:
  assumes "c \<notin> set a" and "c \<notin> set b"
  shows "split_js [c] (a @ [c] @ b) = [a, b]"
proof -
  have "\<forall>j<length a. take (length [c]) (drop j (a @ [c] @ b)) \<noteq> [c]"
  proof (intro allI impI)
    fix j assume j: "j < length a"
    then have "take (length [c]) (drop j (a @ [c] @ b)) = [a ! j]"
      by (simp add: take_Suc_conv_app_nth hd_drop_conv_nth take_Suc)
    moreover have "a ! j \<noteq> c" using assms(1) j by (metis nth_mem)
    ultimately show "take (length [c]) (drop j (a @ [c] @ b)) \<noteq> [c]" by simp
  qed
  then have "split_from [c] [] (a @ [c] @ b) = ([] @ a) # split_from [c] [] b"
    by (intro split_from_first) simp
  with assms(2) show ?thesis by (simp add: split_js_def split_from_absent)
qed

lemma replace_dot_git_suffix:
  assumes "s \<noteq> []"
  shows "replace_dot_git (s @ ''.git'') = s" "length (s @ ''.git'') - 4 = length s"
proof -
  let ?t = "s @ ''.git''"
  have n: "length ?t = length s + 4" by simp
  have "drop (length ?t - 3) ?t = ''git''" by (simp add: n)
  moreover have "?t ! (length ?t - 4) = CHR ''.''" by (simp add: n nth_append)
  moreover have "take (length ?t - 4) ?t = s" by (simp add: n)
  moreover have "4 \<le> length ?t" by simp
  ultimately show "replace_dot_git ?t = s"
    unfolding replace_dot_git_def Let_def by (simp only: LF_def CR_def) simp
  show "length ?t - 4 = length s" by simp
qed

lemma cleanRepoUrl_two_segments:
  assumes "new_URL u = Some parsedUrl" and "hostname parsedUrl = ''github.com''"
    and "pathname parsedUrl = ''/'' @ ow @ ''/'' @ rp"
    and "CHR ''/'' \<notin> set ow" and "CHR ''/'' \<notin> set rp"
    and "replace_dot_git (ow @ ''/'' @ rp) = ow @ ''/'' @ rp"
  shows "cleanRepoUrl new_URL u = Some \<lparr>owner = ow, repo = rp\<rparr>"
proof -
  have "split_js ''/'' (ow @ ''/'' @ rp) = [ow, rp]"
    using assms(4,5) by (rule split_js_two_segments)
  with assms(1-3,6) show ?thesis
    by (simp add: cleanRepoUrl_def)
qed

lemma cleanRepoUrl_dot_git:
  assumes "new_URL u = Some parsedUrl" and "hostname parsedUrl = ''github.com''"
    and "pathname parsedUrl = ''/'' @ ow @ ''/'' @ rp @ ''.git''"
    and "CHR ''/'' \<notin> set ow" and "CHR ''/'' \<notin> set rp"
  shows "cleanRepoUrl new_URL u = Some \<lparr>owner = ow, repo = rp\<rparr>"
proof -
  have "replace_dot_git ((ow @ ''/'' @ rp) @ ''.git'') = ow @ ''/'' @ rp"
    by (rule replace_dot_git_suffix) simp
  moreover have "split_js ''/'' (ow @ ''/'' @ rp) = [ow, rp]"
    using assms(4,5) by (rule split_js_two_segments)
  ultimately show ?thesis
    using assms(1-3) by (simp add: cleanRepoUrl_def)
qed

section \<open>Summarizer: inputs whose labels name no inherited property\<close>

lemma total_repos_untouched:
  "e \<notin> ecosystem ` set rs \<Longrightarrow> totals (total_repos rs acc) e = totals acc e"
  by (induction rs arbitrary: acc) (auto simp: add_commits_other Let_def)

lemma mset_all_commits:
  "mset (all_commits xs) = sum_mset (image_mset snd (mset (map shape xs)))"
proof -
  have "mset (all_commits xs) = sum_list (map mset (map commits xs))"
    by (simp add: all_commits_def mset_concat)
  also have "\<dots> = sum_list (map snd (map shape xs))"
    by (simp add: shape_def comp_def)
  also have "\<dots> = sum_mset (mset (map snd (map shape xs)))"
    by (simp only: sum_mset_sum_list)
  finally show ?thesis by (simp add: image_mset.compositionality comp_def)
qed

lemma mset_ecosystem_commits:
  "mset (all_commits (filter (\<lambda>r. ecosystem r = e) xs)) =
   sum_mset (image_mset snd (filter_mset (\<lambda>p. fst p = e) (mset (map shape xs))))"
proof -
  have "map shape (filter (\<lambda>r. ecosystem r = e) xs) = filter (\<lambda>p. fst p = e) (map shape xs)"
    by (induction xs) (simp_all add: shape_def)
  then show ?thesis
    using mset_all_commits [of "filter (\<lambda>r. ecosystem r = e) xs"] by simp
qed

lemma same_up_to_order_facts:
  assumes "same_up_to_order xs ys"
  shows "mset (all_commits xs) = mset (all_commits ys)"
    and "commits_on Date_parse xs k = commits_on Date_parse ys k"
    and "commits_of_ecosystem xs e = commits_of_ecosystem ys e"
    and "ecosystem ` set xs = ecosystem ` set ys"
    and "dates_parse Date_parse (all_commits xs) \<longleftrightarrow> dates_parse Date_parse (all_commits ys)"
proof -
  from assms have eq: "mset (map shape xs) = mset (map shape ys)"
    by (simp add: same_up_to_order_def)
  show all: "mset (all_commits xs) = mset (all_commits ys)"
    by (simp only: mset_all_commits eq)
  have "size (filter_mset (\<lambda>c. utc_date Date_parse c = Some k) (mset (all_commits xs))) =
        size (filter_mset (\<lambda>c. utc_date Date_parse c = Some k) (mset (all_commits ys)))"
    by (simp only: all)
  then show "commits_on Date_parse xs k = commits_on Date_parse ys k"
    by (simp add: commits_on_def flip: mset_filter)
  have "size (mset (all_commits (filter (\<lambda>r. ecosystem r = e) xs))) =
        size (mset (all_commits (filter (\<lambda>r. ecosystem r = e) ys)))"
    by (simp only: mset_ecosystem_commits eq)
  then show "commits_of_ecosystem xs e = commits_of_ecosystem ys e"
    by (simp add: commits_of_ecosystem_def)
  have "fst ` set (map shape xs) = fst ` set (map shape ys)"
    using eq by (metis set_mset_mset)
  then show "ecosystem ` set xs = ecosystem ` set ys"
    by (simp add: shape_def image_image)
  from all have "set (all_commits xs) = set (all_commits ys)"
    by (metis set_mset_mset)
  then show "dates_parse Date_parse (all_commits xs) \<longleftrightarrow> dates_parse Date_parse (all_commits ys)"
    by (simp add: dates_parse_def list_all_iff)
qed

lemma not_dates_parse:
  assumes "\<not> dates_parse Date_parse (all_commits jsonData)"
  shows "count_repos Date_parse jsonData m = Inl RangeError"
proof -
  from assms obtain c d where c: "c \<in> set (all_commits jsonData)"
    and d: "date c = Some d" "d \<noteq> []" "Date_parse d = None"
    by (auto simp: dates_parse_def list_all_iff split: option.splits)
  from c obtain r where "r \<in> set jsonData" "c \<in> set (commits r)"
    by (auto simp: all_commits_def)
  then show ?thesis using d by (rule count_repos_invalid)
qed

lemma summarizeData_complete:
  assumes "input_file files = Some (Collection jsonData)"
    and "dates_parse Date_parse (all_commits jsonData)"
  shows "\<exists>daily. summarizeData Date_parse files =
           (Complete, files\<lparr>daily_file := Some daily,
              eco_file := Some (total_repos jsonData \<lparr>totals = Map.empty, overallTotal = 0\<rparr>)\<rparr>) \<and>
         (\<forall>k. daily k = tally None (commits_on Date_parse jsonData k))"
proof -
  from count_repos_closed [OF assms(2), where m = Map.empty]
  obtain daily where "count_repos Date_parse jsonData Map.empty = Inr daily"
    and "\<forall>k. daily k = tally None (commits_on Date_parse jsonData k)"
    by auto
  with assms(1) show ?thesis
    by (intro exI [of _ daily]) (simp add: summarizeData_def)
qed

text \<open>
  When no ecosystem label of the input names a property of \<^verbatim>\<open>Object.prototype\<close>, the
  outcome and both summaries are the same for two inputs that differ only in the order of
  their repositories and of the commits of each repository.
\<close>

lemma summarizeData_order_ordinary:
  assumes "same_up_to_order xs ys"
    and "ecosystem ` set xs \<inter> set inherited_keys = {}"
    and "input_file fx = Some (Collection xs)" and "input_file fy = Some (Collection ys)"
    and "daily_file fx = daily_file fy" and "eco_file fx = eco_file fy"
  shows "fst (summarizeData Date_parse fx) = fst (summarizeData Date_parse fy) \<and>
         daily_file (snd (summarizeData Date_parse fx)) = daily_file (snd (summarizeData Date_parse fy)) \<and>
         eco_file (snd (summarizeData Date_parse fx)) = eco_file (snd (summarizeData Date_parse fy))"
proof (cases "dates_parse Date_parse (all_commits xs)")
  case False
  with same_up_to_order_facts(5) [OF assms(1)]
  have "\<not> dates_parse Date_parse (all_commits ys)" by blast
  with False assms(3-6) show ?thesis
    by (simp add: summarizeData_def not_dates_parse)
next
  case True
  with same_up_to_order_facts(5) [OF assms(1)]
  have py: "dates_parse Date_parse (all_commits ys)" by blast
  from assms(2) same_up_to_order_facts(4) [OF assms(1)]
  have oy: "ecosystem ` set ys \<inter> set inherited_keys = {}" by simp
  define ex where ex: "ex = total_repos xs \<lparr>totals = Map.empty, overallTotal = 0\<rparr>"
  define ey where ey: "ey = total_repos ys \<lparr>totals = Map.empty, overallTotal = 0\<rparr>"
  from summarizeData_complete [OF assms(3) True]
  obtain dx where x: "summarizeData Date_parse fx = (Complete, fx\<lparr>daily_file := Some dx, eco_file := Some ex\<rparr>)"
    and dx: "\<And>k. dx k = tally None (commits_on Date_parse xs k)"
    unfolding ex by blast
  from summarizeData_complete [OF assms(4) py]
  obtain dy where y: "summarizeData Date_parse fy = (Complete, fy\<lparr>daily_file := Some dy, eco_file := Some ey\<rparr>)"
    and dy: "\<And>k. dy k = tally None (commits_on Date_parse ys k)"
    unfolding ey by blast
  have "dx = dy"
    by (rule ext) (simp add: dx dy same_up_to_order_facts(2) [OF assms(1)])
  moreover have "overallTotal ex = overallTotal ey"
    using same_up_to_order_facts(1) [OF assms(1)]
    by (simp add: ex ey total_repos_overall) (metis size_mset)
  moreover have "totals ex = totals ey"
  proof (rule ext)
    fix e
    show "totals ex e = totals ey e"
    proof (cases "e \<in> ecosystem ` set xs")
      case False
      with same_up_to_order_facts(4) [OF assms(1)] have "e \<notin> ecosystem ` set ys" by simp
      with False show ?thesis by (simp add: ex ey total_repos_untouched)
    next
      case True
      with assms(2) have ord: "e \<notin> set inherited_keys" by blast
      have "totals ex e = (if e \<in> ecosystem ` set xs then Some (Num (0 + commits_of_ecosystem xs e))
          else totals \<lparr>totals = Map.empty, overallTotal = 0\<rparr> e)"
        unfolding ex by (rule total_repos_ordinary [OF ord]) simp
      moreover have "totals ey e = (if e \<in> ecosystem ` set ys then Some (Num (0 + commits_of_ecosystem ys e))
          else totals \<lparr>totals = Map.empty, overallTotal = 0\<rparr> e)"
        unfolding ey by (rule total_repos_ordinary [OF ord]) simp
      ultimately show ?thesis
        using same_up_to_order_facts(3,4) [OF assms(1)] by simp
    qed
  qed
  ultimately have "ex = ey" by simp
  with \<open>dx = dy\<close> x y show ?thesis by simp
qed

lemma length_all_commits_Cons: "length (all_commits (r # rs)) = length (commits r) + length (all_commits rs)"
  by (simp add: all_commits_def)

lemma sum_commits_of_ecosystem:
  "(\<Sum>e\<in>ecosystem ` set rs. commits_of_ecosystem rs e) = length (all_commits rs)"
proof (induction rs)
  case Nil
  then show ?case by (simp add: all_commits_def)
next
  case (Cons r rs)
  let ?E = "ecosystem ` set (r # rs)"
  have fin: "finite ?E" by simp
  have here: "(\<Sum>e\<in>?E. if ecosystem r = e then length (commits r) else 0) = length (commits r)"
    using fin by (simp add: sum.delta')
  have "(\<Sum>e\<in>?E. commits_of_ecosystem rs e) = (\<Sum>e\<in>ecosystem ` set rs. commits_of_ecosystem rs e)"
    by (rule sum.mono_neutral_right) (auto simp: commits_of_ecosystem_absent)
  with Cons.IH have rest: "(\<Sum>e\<in>?E. commits_of_ecosystem rs e) = length (all_commits rs)"
    by simp
  have "(\<Sum>e\<in>?E. commits_of_ecosystem (r # rs) e) =
      (\<Sum>e\<in>?E. if ecosystem r = e then length (commits r) else 0) +
      (\<Sum>e\<in>?E. commits_of_ecosystem rs e)"
    by (simp only: commits_of_ecosystem_Cons sum.distrib)
  with here rest show ?case by (simp only: length_all_commits_Cons)
qed

text \<open>
  When no ecosystem label of the input names a property of \<^verbatim>\<open>Object.prototype\<close>, the keys
  of \<^verbatim>\<open>totals\<close> are the labels of the input, its values add up to \<^verbatim>\<open>overallTotal\<close>, and
  that is the number of commit records.
\<close>

lemma totals_sum_ordinary:
  assumes "ecosystem ` set jsonData \<inter> set inherited_keys = {}"
    and "eco = total_repos jsonData \<lparr>totals = Map.empty, overallTotal = 0\<rparr>"
  shows "dom (totals eco) = ecosystem ` set jsonData"
    and "(\<Sum>e\<in>dom (totals eco). count_of (totals eco e)) = overallTotal eco"
    and "overallTotal eco = length (all_commits jsonData)"
proof -
  have val: "totals eco e =
      (if e \<in> ecosystem ` set jsonData then Some (Num (commits_of_ecosystem jsonData e)) else None)" for e
  proof (cases "e \<in> ecosystem ` set jsonData")
    case False
    then show ?thesis by (simp add: assms(2) total_repos_untouched)
  next
    case True
    with assms(1) have ord: "e \<notin> set inherited_keys" by blast
    have "totals eco e = (if e \<in> ecosystem ` set jsonData
          then Some (Num (0 + commits_of_ecosystem jsonData e))
          else totals \<lparr>totals = Map.empty, overallTotal = 0\<rparr> e)"
      unfolding assms(2) by (rule total_repos_ordinary [OF ord]) simp
    then show ?thesis by simp
  qed
  show keys: "dom (totals eco) = ecosystem ` set jsonData"
    by (auto simp: val dom_def split: if_splits)
  show total: "overallTotal eco = length (all_commits jsonData)"
    by (simp add: assms(2) total_repos_overall)
  have "(\<Sum>e\<in>dom (totals eco). count_of (totals eco e)) =
      (\<Sum>e\<in>ecosystem ` set jsonData. commits_of_ecosystem jsonData e)"
    unfolding keys by (rule sum.cong) (simp_all add: val count_of_def)
  then show "(\<Sum>e\<in>dom (totals eco). count_of (totals eco e)) = overallTotal eco"
    by (simp only: sum_commits_of_ecosystem total)
qed

end
